theory Spec2Isabelle
  imports Complex_Main
begin

section \<open>Data model\<close>

text \<open>
  The scrapers of the repository drive a browser session, sleep between requests and
  write CSV files. The embedding makes those effects explicit: every scraper method takes
  the scraper object (a record of its attributes plus the observable trace) and returns
  it updated. Python numbers are unbounded integers (\<open>int\<close>) and floats; floats are
  idealised as \<open>real\<close>, so rounding is not modelled.
\<close>

text \<open>The dictionary built by \<open>SpotifyScraper.scrape_track\<close>: five string fields.\<close>

record result =
  track_id :: string
  track_name :: string
  spotify_url :: string
  lyrics :: string
  cover_image_url :: string

text \<open>The dictionary appended to \<open>failed_tracks\<close> (production_scraper.py, line 63).\<close>

record failed_track =
  failed_id :: string
  failed_name :: string
  failed_error :: string

text \<open>One row of the input CSV (\<open>row['track_id']\<close>, \<open>row['track_name']\<close>).\<close>

record track_row =
  row_id :: string
  row_name :: string

text \<open>
  What a Python call can raise. \<open>except Exception\<close> catches \<open>Exception e\<close> (carrying
  \<open>str(e)\<close>) and lets \<open>KeyboardInterrupt\<close> through.
\<close>

datatype exn = KeyboardInterrupt | Exception string

text \<open>How one call of \<open>setup_driver\<close> can end (spotify_scraper.py, lines 62 and 65).\<close>

datatype setup_outcome =
    SetupOk
  | ChromeFailed exn      \<comment> \<open>\<open>webdriver.Chrome(...)\<close> raises: no session, handle unchanged\<close>
  | ScriptFailed exn      \<comment> \<open>\<open>execute_script\<close> raises: the new session exists and is assigned\<close>

text \<open>
  The environment: what the remote source, the browser and the operator do. Each oracle
  is asked with the number of interactions made so far (\<open>ticks\<close>), so an environment may
  answer every call differently.
\<close>

record env =
  env_scrape_track :: "nat \<Rightarrow> string \<Rightarrow> string \<Rightarrow> exn + result"
    \<comment> \<open>\<open>self.scrape_track(track_id, track_name)\<close>: a result dictionary or a raise\<close>
  env_sleep :: "nat \<Rightarrow> bool"
    \<comment> \<open>\<open>time.sleep\<close>: \<open>True\<close> when the operator interrupts during the sleep\<close>
  env_setup :: "nat \<Rightarrow> setup_outcome"

text \<open>Observable events, in program order.\<close>

datatype event =
    Scrape string string        \<comment> \<open>a call of \<open>self.scrape_track\<close>\<close>
  | SleepUniform real real      \<comment> \<open>\<open>time.sleep(random.uniform(a, b))\<close>\<close>
  | Sleep real                  \<comment> \<open>\<open>time.sleep(c)\<close>\<close>
  | SetupDriver nat             \<comment> \<open>a session was acquired\<close>
  | DriverQuit nat              \<comment> \<open>\<open>driver.quit()\<close> on that session\<close>

text \<open>
  The attributes of \<open>ProductionSpotifyScraper\<close> (\<open>driver\<close>, \<open>results\<close>,
  \<open>max_retries\<close>, \<open>failed_tracks\<close>) and the world around it: live browser sessions,
  the files written, the trace and the interaction counter.
\<close>

record scraper =
  driver :: "nat option"
  results :: "result list"
  max_retries :: int
  failed_tracks :: "failed_track list"
  live :: "nat set"
  next_session :: nat
  disk :: "string \<rightharpoonup> result list"
  failed_csv :: "failed_track list option"
  trace :: "event list"
  ticks :: nat

section \<open>Strings\<close>

text \<open>Python's \<open>needle in haystack\<close> on strings: a contiguous occurrence.\<close>

fun starts_with :: "string \<Rightarrow> string \<Rightarrow> bool" where
  "starts_with [] hay = True"
| "starts_with (c # cs) [] = False"
| "starts_with (c # cs) (h # hs) = (c = h \<and> starts_with cs hs)"

fun str_in :: "string \<Rightarrow> string \<Rightarrow> bool" where
  "str_in needle [] = (needle = [])"
| "str_in needle (h # hs) = (starts_with needle (h # hs) \<or> str_in needle hs)"

text \<open>\<open>str(n)\<close> for a Python integer.\<close>

fun str_nat :: "nat \<Rightarrow> string" where
  "str_nat n = (if n < 10 then [char_of (48 + n)]
                else str_nat (n div 10) @ [char_of (48 + n mod 10)])"

definition str_int :: "int \<Rightarrow> string" where
  "str_int i = (if i < 0 then CHR ''-'' # str_nat (nat (- i)) else str_nat (nat i))"

section \<open>Primitive effects\<close>

definition time_sleep_uniform :: "env \<Rightarrow> real \<Rightarrow> real \<Rightarrow> scraper \<Rightarrow> bool \<times> scraper" where
  "time_sleep_uniform e a b s =
     (env_sleep e (ticks s),
      s\<lparr>trace := trace s @ [SleepUniform a b], ticks := Suc (ticks s)\<rparr>)"

definition time_sleep :: "env \<Rightarrow> real \<Rightarrow> scraper \<Rightarrow> bool \<times> scraper" where
  "time_sleep e c s =
     (env_sleep e (ticks s),
      s\<lparr>trace := trace s @ [Sleep c], ticks := Suc (ticks s)\<rparr>)"

definition call_scrape_track ::
  "env \<Rightarrow> string \<Rightarrow> string \<Rightarrow> scraper \<Rightarrow> (exn + result) \<times> scraper" where
  "call_scrape_track e tid tname s =
     (env_scrape_track e (ticks s) tid tname,
      s\<lparr>trace := trace s @ [Scrape tid tname], ticks := Suc (ticks s)\<rparr>)"

section \<open>The retry controller\<close>

text \<open>The dictionary returned when the retries are exhausted by an exception (lines 64-70).\<close>

definition failure_result :: "int \<Rightarrow> string \<Rightarrow> string \<Rightarrow> string \<Rightarrow> result" where
  "failure_result mr tid tname err =
     \<lparr>track_id = tid, track_name = tname,
      spotify_url = ''https://open.spotify.com/track/'' @ tid,
      lyrics = ''Failed after '' @ str_int mr @ '' attempts: '' @ err,
      cover_image_url = ''Failed to extract''\<rparr>"

definition error_marked :: "result \<Rightarrow> bool" where
  "error_marked r = (str_in ''Error'' (lyrics r) \<or> str_in ''Error'' (cover_image_url r))"

text \<open>
  \<open>ProductionSpotifyScraper.scrape_track_with_retry\<close> (production_scraper.py, lines
  43-70). The result is \<open>Inl KeyboardInterrupt\<close> when an interrupt passes through the
  \<open>except Exception\<close> clause, and the returned dictionary otherwise. The self-calls of
  lines 52 and 60 are taken as calls that always find room on the interpreter's stack: see
  \<open>recursion_headroom\<close> below for the range of \<open>max_retries\<close> in which that is so.
\<close>

function scrape_track_with_retry ::
  "env \<Rightarrow> string \<Rightarrow> string \<Rightarrow> int \<Rightarrow> scraper \<Rightarrow> (exn + result) \<times> scraper" where
  "scrape_track_with_retry e tid tname attempt s =
     (case call_scrape_track e tid tname s of
        (Inr r, s1) \<Rightarrow>
          if error_marked r \<and> attempt < max_retries s1
          then (case time_sleep_uniform e 5 10 s1 of
                  (True, s2) \<Rightarrow> (Inl KeyboardInterrupt, s2)
                | (False, s2) \<Rightarrow> scrape_track_with_retry e tid tname (attempt + 1) s2)
          else (Inr r, s1)
      | (Inl KeyboardInterrupt, s1) \<Rightarrow> (Inl KeyboardInterrupt, s1)
      | (Inl (Exception err), s1) \<Rightarrow>
          if attempt < max_retries s1
          then (case time_sleep_uniform e 5 10 s1 of
                  (True, s2) \<Rightarrow> (Inl KeyboardInterrupt, s2)
                | (False, s2) \<Rightarrow> scrape_track_with_retry e tid tname (attempt + 1) s2)
          else (Inr (failure_result (max_retries s1) tid tname err),
                s1\<lparr>failed_tracks := failed_tracks s1 @
                     [\<lparr>failed_id = tid, failed_name = tname, failed_error = err\<rparr>]\<rparr>))"
  by pat_completeness auto
termination
  by (relation "measure (\<lambda>(e, tid, tname, attempt, s). nat (max_retries s - attempt))")
     (auto simp: time_sleep_uniform_def call_scrape_track_def)


section \<open>The rate controller\<close>

text \<open>\<open>SpotifyScraper.random_delay\<close> (spotify_scraper.py, lines 67-69).\<close>

definition random_delay :: "env \<Rightarrow> real \<Rightarrow> real \<Rightarrow> scraper \<Rightarrow> bool \<times> scraper" where
  "random_delay e min_seconds max_seconds s = time_sleep_uniform e min_seconds max_seconds s"

text \<open>
  The value \<open>random.uniform(a, b)\<close> returns for the sample \<open>u = random.random()\<close>,
  as the Python library documents it.
\<close>

definition random_uniform :: "real \<Rightarrow> real \<Rightarrow> real \<Rightarrow> real" where
  "random_uniform a b u = a + (b - a) * u"

text \<open>
  The range chosen by \<open>adaptive_delay\<close> (production_scraper.py, lines 89-97) and the
  method itself, which hands the range to \<open>random_delay\<close> (line 99).
\<close>

definition adaptive_range :: "real \<Rightarrow> real \<Rightarrow> real \<Rightarrow> real \<times> real" where
  "adaptive_range success_rate base_delay_min base_delay_max =
     (if success_rate < 0.8 then (base_delay_min * 1.5, base_delay_max * 2)
      else if success_rate > 0.95 then (base_delay_min * 0.8, base_delay_max * 0.8)
      else (base_delay_min, base_delay_max))"

definition adaptive_delay :: "env \<Rightarrow> real \<Rightarrow> real \<Rightarrow> real \<Rightarrow> scraper \<Rightarrow> bool \<times> scraper" where
  "adaptive_delay e success_rate base_delay_min base_delay_max s =
     (case adaptive_range success_rate base_delay_min base_delay_max of
        (delay_min, delay_max) \<Rightarrow> random_delay e delay_min delay_max s)"

section \<open>The estimate of the remaining time\<close>

text \<open>Python's \<open>/\<close>: \<open>ZeroDivisionError\<close> on a zero divisor.\<close>

definition py_truediv :: "real \<Rightarrow> real \<Rightarrow> exn + real" where
  "py_truediv a b = (if b = 0 then Inl (Exception ''float division by zero'') else Inr (a / b))"

text \<open>
  \<open>calculate_eta\<close> (production_scraper.py, lines 72-85). \<open>elapsed\<close> stands for
  \<open>(datetime.now() - start_time).total_seconds()\<close>, the one clock reading of the
  method; \<open>total_n\<close> is the parameter \<open>total\<close>. \<open>x // 3600\<close> is the floor of the quotient and \<open>x % 3600\<close> what remains.
\<close>

definition calculate_eta :: "int \<Rightarrow> int \<Rightarrow> real \<Rightarrow> exn + string" where
  "calculate_eta completed total_n elapsed =
     (if completed = 0 then Inr ''Unknown''
      else case py_truediv (of_int completed) elapsed of
        Inl x \<Rightarrow> Inl x
      | Inr rate \<Rightarrow>
          (case py_truediv (of_int (total_n - completed)) rate of
             Inl x \<Rightarrow> Inl x
           | Inr eta_seconds \<Rightarrow>
               (let hours = \<lfloor>eta_seconds / 3600\<rfloor>;
                    minutes = \<lfloor>(eta_seconds - 3600 * of_int \<lfloor>eta_seconds / 3600\<rfloor>) / 60\<rfloor>
                in Inr (str_int hours @ ''h '' @ str_int minutes @ ''m''))))"

section \<open>The session and the ledger\<close>

text \<open>
  \<open>setup_driver\<close> (spotify_scraper.py, lines 27-65): \<open>webdriver.Chrome\<close> starts a
  session and the handle is assigned to \<open>self.driver\<close> (line 62); \<open>execute_script\<close>
  (line 65) runs on the new session and may still raise.
\<close>

definition setup_driver :: "env \<Rightarrow> scraper \<Rightarrow> exn option \<times> scraper" where
  "setup_driver e s =
     (let acquired = s\<lparr>driver := Some (next_session s),
                       live := insert (next_session s) (live s),
                       next_session := Suc (next_session s),
                       trace := trace s @ [SetupDriver (next_session s)],
                       ticks := Suc (ticks s)\<rparr>
      in case env_setup e (ticks s) of
           SetupOk \<Rightarrow> (None, acquired)
         | ChromeFailed x \<Rightarrow> (Some x, s\<lparr>ticks := Suc (ticks s)\<rparr>)
         | ScriptFailed x \<Rightarrow> (Some x, acquired))"

text \<open>
  \<open>self.driver.quit()\<close>: ends the session the handle refers to; the attribute keeps
  the handle. On \<open>None\<close> the attribute access raises.
\<close>

definition driver_quit :: "scraper \<Rightarrow> exn option \<times> scraper" where
  "driver_quit s =
     (case driver s of
        None \<Rightarrow> (Some (Exception ''NoneType object has no attribute quit''), s)
      | Some h \<Rightarrow> (None, s\<lparr>live := live s - {h}, trace := trace s @ [DriverQuit h]\<rparr>))"

text \<open>\<open>close\<close> (spotify_scraper.py, lines 253-256).\<close>

definition close :: "scraper \<Rightarrow> scraper" where
  "close s = (case driver s of None \<Rightarrow> s | Some h \<Rightarrow> snd (driver_quit s))"

text \<open>\<open>save_progress\<close> (spotify_scraper.py, lines 195-200): nothing is written for an empty list.\<close>

definition save_progress :: "string \<Rightarrow> scraper \<Rightarrow> scraper" where
  "save_progress filename s =
     (if results s \<noteq> []
      then s\<lparr>disk := (disk s)(''/workspaces/Songs4Image/'' @ filename \<mapsto> results s)\<rparr>
      else s)"

text \<open>
  The constructors \<open>SpotifyScraper.__init__\<close> and \<open>ProductionSpotifyScraper.__init__\<close>,
  run in the world \<open>w\<close> (only the world part of \<open>w\<close> is read). When \<open>setup_driver\<close>
  raises, the remaining assignments are not made.
\<close>

definition new_scraper :: "env \<Rightarrow> int \<Rightarrow> scraper \<Rightarrow> exn option \<times> scraper" where
  "new_scraper e mr w =
     (case setup_driver e (w\<lparr>driver := None\<rparr>) of
        (Some x, s) \<Rightarrow> (Some x, s)
      | (None, s) \<Rightarrow> (None, s\<lparr>results := [], max_retries := mr, failed_tracks := []\<rparr>))"

section \<open>The run orchestrator\<close>

text \<open>
  The blocks of the loop body of \<open>production_scrape\<close> that fire on a cadence of the
  completed count: the progress save (lines 141-142), the extended break (lines 151-153)
  and the browser restart (lines 156-161). The ETA and the percentage computed at line
  144-148 only feed the logger; logging and the pace check of lines 164-171, which
  assigns two locals nobody reads, are left out.
\<close>

definition progress_save :: "nat \<Rightarrow> scraper \<Rightarrow> scraper" where
  "progress_save completed s =
     (if completed mod 25 = 0
      then save_progress (''spotify_data_progress_'' @ str_nat completed @ ''.csv'') s
      else s)"

definition extended_break :: "env \<Rightarrow> nat \<Rightarrow> scraper \<Rightarrow> bool \<times> scraper" where
  "extended_break e completed s =
     (if completed mod 100 = 0 then time_sleep_uniform e 60 120 s else (False, s))"

definition browser_restart :: "env \<Rightarrow> nat \<Rightarrow> scraper \<Rightarrow> exn option \<times> scraper" where
  "browser_restart e completed s =
     (if completed mod 300 = 0
      then (case driver_quit s of
              (Some x, s1) \<Rightarrow> (Some x, s1)
            | (None, s1) \<Rightarrow>
                (case time_sleep e 10 s1 of
                   (True, s2) \<Rightarrow> (Some KeyboardInterrupt, s2)
                 | (False, s2) \<Rightarrow>
                     (case setup_driver e s2 of
                        (Some x, s3) \<Rightarrow> (Some x, s3)
                      | (None, s3) \<Rightarrow>
                          (case time_sleep e 5 s3 of
                             (True, s4) \<Rightarrow> (Some KeyboardInterrupt, s4)
                           | (False, s4) \<Rightarrow> (None, s4)))))
      else (None, s))"

text \<open>
  One iteration of the loop of \<open>production_scrape\<close> for a row that is not skipped
  (lines 123-161). The local \<open>success_count\<close> travels with the scraper.
\<close>

definition process_row ::
  "env \<Rightarrow> track_row \<Rightarrow> nat \<times> scraper \<Rightarrow> exn option \<times> (nat \<times> scraper)" where
  "process_row e row st =
     (case st of (success_count, s) \<Rightarrow>
      (case scrape_track_with_retry e (row_id row) (row_name row) 1 s of
         (Inl x, s1) \<Rightarrow> (Some x, (success_count, s1))
       | (Inr r, s1) \<Rightarrow>
           (let s2 = s1\<lparr>results := results s1 @ [r]\<rparr>;
                success_count' =
                  (if \<not> str_in ''Error'' (lyrics r) \<and> \<not> str_in ''Failed'' (lyrics r)
                   then success_count + 1 else success_count);
                completed = length (results s2);
                success_rate =
                  (if completed > 0 then real success_count' / real completed else 0)
            in case adaptive_delay e success_rate 2 5 s2 of
                 (True, s3) \<Rightarrow> (Some KeyboardInterrupt, (success_count', s3))
               | (False, s3) \<Rightarrow>
                   (case extended_break e completed (progress_save completed s3) of
                      (True, s4) \<Rightarrow> (Some KeyboardInterrupt, (success_count', s4))
                    | (False, s4) \<Rightarrow>
                        (case browser_restart e completed s4 of
                           (x, s5) \<Rightarrow> (x, (success_count', s5)))))))"

text \<open>
  The \<open>for index, row in df.iterrows()\<close> loop with its \<open>continue\<close> (lines 119-121).
  \<open>read_csv\<close> numbers the rows from 0. A raise leaves the loop.
\<close>

fun production_loop ::
  "env \<Rightarrow> int \<Rightarrow> int \<Rightarrow> track_row list \<Rightarrow> nat \<times> scraper \<Rightarrow> exn option \<times> (nat \<times> scraper)" where
  "production_loop e start_index index [] st = (None, st)"
| "production_loop e start_index index (row # rows) st =
     (if index < start_index then production_loop e start_index (index + 1) rows st
      else case process_row e row st of
             (Some x, st') \<Rightarrow> (Some x, st')
           | (None, st') \<Rightarrow> production_loop e start_index (index + 1) rows st')"

text \<open>
  \<open>production_scrape\<close> (lines 101-190) on the rows of the CSV. Line 114 divides by
  \<open>target_time_hours * 3600\<close>.
\<close>

definition production_scrape ::
  "env \<Rightarrow> track_row list \<Rightarrow> int \<Rightarrow> real \<Rightarrow> scraper \<Rightarrow> exn option \<times> scraper" where
  "production_scrape e rows start_index target_time_hours s =
     (if target_time_hours * 3600 = 0 then (Some (Exception ''division by zero''), s)
      else case production_loop e start_index 0 rows (0, s) of
             (Some x, (success_count, s1)) \<Rightarrow> (Some x, s1)
           | (None, (success_count, s1)) \<Rightarrow>
               (let s2 = save_progress ''spotify_data_final.csv'' s1
                in (None, if failed_tracks s2 \<noteq> []
                          then s2\<lparr>failed_csv := Some (failed_tracks s2)\<rparr> else s2)))"

text \<open>
  \<open>main\<close> (lines 192-224). \<open>csv\<close> is the content of the track file, \<open>None\<close> when
  \<open>os.path.exists\<close> fails; \<open>w\<close> is the world the process starts in. The constructor
  runs before the \<open>try\<close>, so what it raises leaves \<open>main\<close> unhandled.
\<close>

definition main :: "env \<Rightarrow> track_row list option \<Rightarrow> scraper \<Rightarrow> exn option \<times> scraper" where
  "main e csv w =
     (case new_scraper e 3 w of
        (Some x, s) \<Rightarrow> (Some x, s)
      | (None, s) \<Rightarrow>
          (case (case csv of None \<Rightarrow> (None, s)
                 | Some rows \<Rightarrow> production_scrape e rows 0 6 s) of
             (None, s1) \<Rightarrow> (None, close s1)
           | (Some KeyboardInterrupt, s1) \<Rightarrow>
               (None, close (save_progress ''spotify_data_interrupted.csv'' s1))
           | (Some (Exception err), s1) \<Rightarrow>
               (None, close (save_progress ''spotify_data_error.csv'' s1))))"

section \<open>Observations and test environments\<close>

text \<open>The attempts made so far: the calls of \<open>self.scrape_track\<close> in the trace.\<close>

fun is_scrape :: "event \<Rightarrow> bool" where
  "is_scrape (Scrape tid tname) = True"
| "is_scrape ev = False"

definition attempts :: "scraper \<Rightarrow> nat" where
  "attempts s = length (filter is_scrape (trace s))"

text \<open>
  The condition under which \<open>scrape_track_with_retry\<close> goes on to another attempt while
  \<open>attempt < self.max_retries\<close>: the \<open>except Exception\<close> clause was entered (line 56)
  or the test of line 49 found the marker.
\<close>

definition retryable :: "exn + result \<Rightarrow> bool" where
  "retryable out = (case out of Inl KeyboardInterrupt \<Rightarrow> False
                    | Inl (Exception err) \<Rightarrow> True | Inr r \<Rightarrow> error_marked r)"


definition never_interrupted :: "env \<Rightarrow> bool" where
  "never_interrupted e = (\<forall>t. \<not> env_sleep e t)"

text \<open>Concrete environments: every scrape raises; every scrape succeeds.\<close>

definition env_boom :: env where
  "env_boom = \<lparr>env_scrape_track = (\<lambda>t tid tname. Inl (Exception ''boom'')),
               env_sleep = (\<lambda>t. False), env_setup = (\<lambda>t. SetupOk)\<rparr>"

definition env_quiet :: env where
  "env_quiet = \<lparr>env_scrape_track = (\<lambda>t tid tname. Inr \<lparr>track_id = tid, track_name = tname,
                    spotify_url = ''https://open.spotify.com/track/'' @ tid,
                    lyrics = ''la la'', cover_image_url = ''https://i.scdn.co/image/x''\<rparr>),
               env_sleep = (\<lambda>t. False), env_setup = (\<lambda>t. SetupOk)\<rparr>"

text \<open>A scraper with \<open>max_retries = 3\<close> in an empty world.\<close>

definition blank :: scraper where
  "blank = \<lparr>driver = None, results = [], max_retries = 3, failed_tracks = [],
            live = {}, next_session = 0, disk = Map.empty, failed_csv = None,
            trace = [], ticks = 0\<rparr>"

text \<open>What a call appended to the trace, and the ranges of the randomized sleeps in it.\<close>

definition new_events :: "scraper \<Rightarrow> scraper \<Rightarrow> event list" where
  "new_events s s' = drop (length (trace s)) (trace s')"

fun backoffs :: "event list \<Rightarrow> (real \<times> real) list" where
  "backoffs [] = []"
| "backoffs (SleepUniform a b # evs) = (a, b) # backoffs evs"
| "backoffs (ev # evs) = backoffs evs"

text \<open>The width of a window \<open>(lo, hi)\<close> handed to \<open>random.uniform\<close>.\<close>

definition window_width :: "real \<times> real \<Rightarrow> real" where
  "window_width w = snd w - fst w"

text \<open>
  The classifier in the words of the specification: an outcome is retryable when the
  attempt raised an exception (a Failure) or a returned field, the lyrics or the cover
  image URL, holds the literal marker "Error".
\<close>

definition spec_retryable :: "exn + result \<Rightarrow> bool" where
  "spec_retryable outcome =
     (case outcome of
        Inl KeyboardInterrupt \<Rightarrow> False
      | Inl (Exception reason) \<Rightarrow> True
      | Inr flds \<Rightarrow> str_in ''Error'' (lyrics flds) \<or> str_in ''Error'' (cover_image_url flds))"

text \<open>
  An extractor whose page never loads: the dictionary \<open>SpotifyScraper.scrape_track\<close>
  returns then (spotify_scraper.py, lines 134 and 158). One row of a track file.
\<close>

definition env_error :: env where
  "env_error = \<lparr>env_scrape_track = (\<lambda>t tid tname. Inr \<lparr>track_id = tid, track_name = tname,
                    spotify_url = ''https://open.spotify.com/track/'' @ tid,
                    lyrics = ''Error extracting lyrics'',
                    cover_image_url = ''No image available''\<rparr>),
               env_sleep = (\<lambda>t. False), env_setup = (\<lambda>t. SetupOk)\<rparr>"

definition row1 :: track_row where
  "row1 = \<lparr>row_id = ''t1'', row_name = ''Song''\<rparr>"

section \<open>The run seen from outside\<close>

text \<open>
  Processing a list of rows one after the other, each row once, in list order, stopping at
  the first exception: the reading of "process the work items in order" against which the
  loop of \<open>production_scrape\<close> with its \<open>continue\<close> is compared.
\<close>

fun process_in_order ::
  "env \<Rightarrow> track_row list \<Rightarrow> nat \<times> scraper \<Rightarrow> exn option \<times> (nat \<times> scraper)" where
  "process_in_order e [] st = (None, st)"
| "process_in_order e (row # rows) st =
     (case process_row e row st of
        (Some x, st') \<Rightarrow> (Some x, st')
      | (None, st') \<Rightarrow> process_in_order e rows st')"

text \<open>
  The life of the browser session as the trace shows it: acquisitions (\<open>setup_driver\<close>),
  releases (\<open>driver.quit()\<close>) and the fixed pauses between them.
\<close>

datatype session_event = Acquire | Release | Pause real

fun session_view :: "event list \<Rightarrow> session_event list" where
  "session_view [] = []"
| "session_view (SetupDriver h # evs) = Acquire # session_view evs"
| "session_view (DriverQuit h # evs) = Release # session_view evs"
| "session_view (Sleep c # evs) = Pause c # session_view evs"
| "session_view (ev # evs) = session_view evs"

text \<open>
  Two states that agree on the session, the ledger and the session events.
\<close>

definition same_session :: "scraper \<Rightarrow> scraper \<Rightarrow> bool" where
  "same_session s s' =
     (driver s' = driver s \<and> results s' = results s \<and> max_retries s' = max_retries s
      \<and> live s' = live s \<and> next_session s' = next_session s
      \<and> session_view (trace s') = session_view (trace s))"

text \<open>
  Every live browser session is the one \<open>self.driver\<close> refers to.
\<close>

definition sess_inv :: "scraper \<Rightarrow> bool" where
  "sess_inv s = (live s \<subseteq> set_option (driver s))"

text \<open>
  One browser restart (production_scraper.py, lines 156-161) seen as session events, and
  the number of acquisitions in a trace.
\<close>

definition recycle :: "session_event list" where
  "recycle = [Release, Pause 10, Acquire, Pause 5]"


text \<open>
  A second row, and an operator who interrupts the first sleep.
\<close>

definition row2 :: track_row where
  "row2 = \<lparr>row_id = ''t2'', row_name = ''Tune''\<rparr>"

definition env_interrupt :: env where
  "env_interrupt = \<lparr>env_scrape_track = (\<lambda>t tid tname. Inr \<lparr>track_id = tid, track_name = tname,
                    spotify_url = ''https://open.spotify.com/track/'' @ tid,
                    lyrics = ''la la'', cover_image_url = ''https://i.scdn.co/image/x''\<rparr>),
               env_sleep = (\<lambda>t. True), env_setup = (\<lambda>t. SetupOk)\<rparr>"

text \<open>
  A browser that starts and then fails the first \<open>execute_script\<close> call
  (spotify_scraper.py, line 65).
\<close>

definition env_script_fails :: env where
  "env_script_fails = \<lparr>env_scrape_track = (\<lambda>t tid tname. Inl (Exception ''boom'')),
               env_sleep = (\<lambda>t. False),
               env_setup = (\<lambda>t. ScriptFailed (Exception ''javascript error''))\<rparr>"

text \<open>
  The file the ledger goes to on each way out of \<open>main\<close> (production_scraper.py, lines
  174, 219 and 222).
\<close>

definition exit_file :: "exn option \<Rightarrow> string" where
  "exit_file out =
     (case out of
        None \<Rightarrow> ''spotify_data_final.csv''
      | Some KeyboardInterrupt \<Rightarrow> ''spotify_data_interrupted.csv''
      | Some (Exception err) \<Rightarrow> ''spotify_data_error.csv'')"

section \<open>Adding lyrics to an existing CSV\<close>

text \<open>
  One row of the frame read by \<open>add_lyrics_to_csv\<close> (lyrics_extractor.py, lines 146-204);
  the frame has the columns \<open>track_id\<close> and \<open>track_name\<close>. \<open>lr_lyrics\<close> is
  \<open>row.get('lyrics')\<close>: \<open>None\<close> stands for NaN and for a frame without the column, for
  both of which \<open>pd.notna\<close> is false; any other cell is taken as its text. \<open>lr_time\<close> is
  the cell of \<open>lyrics_processing_time\<close>. Row labels are the positions \<open>0, 1, ...\<close> that
  \<open>read_csv\<close> gives.
\<close>

record lyric_row =
  lr_track_id :: string
  lr_track_name :: string
  lr_lyrics :: "string option"
  lr_time :: "real option"

text \<open>
  What the browser and the operator do during the extraction, asked with the number of
  interactions made so far.
\<close>

record lyr_env =
  lenv_extract :: "nat \<Rightarrow> string \<Rightarrow> string \<Rightarrow> exn + string"
    \<comment> \<open>the body of \<open>extract_full_lyrics\<close> inside its outer \<open>try\<close>\<close>
  lenv_elapsed :: "nat \<Rightarrow> real"
    \<comment> \<open>\<open>time.time() - start_time\<close>\<close>
  lenv_sleep :: "nat \<Rightarrow> bool"
    \<comment> \<open>\<open>time.sleep\<close>: \<open>True\<close> when the operator interrupts during the sleep\<close>
  lenv_write :: "nat \<Rightarrow> exn option"
    \<comment> \<open>\<open>df.to_csv(output_csv)\<close>: what it raises, if anything\<close>
  lenv_quit :: "nat \<Rightarrow> exn option"
    \<comment> \<open>\<open>self.driver.quit()\<close>: what it raises, if anything\<close>
  lenv_setup :: "nat \<Rightarrow> exn option"
    \<comment> \<open>\<open>self.setup_driver()\<close> of the extractor: what it raises, if anything\<close>

text \<open>
  The local variables of \<open>add_lyrics_to_csv\<close> (\<open>df\<close>, \<open>total_processed\<close>,
  \<open>success_count\<close>) and what the call leaves behind: the calls of \<open>extract_full_lyrics\<close>
  with their arguments, every frame written to \<open>output_csv\<close> (oldest first), the number of
  browser restarts begun, and the interaction counter.
\<close>

record lyrics_run =
  df :: "lyric_row list"
  total_processed :: nat
  success_count :: nat
  calls :: "(string \<times> string) list"
  written :: "lyric_row list list"
  restarts :: nat
  lticks :: nat

text \<open>\<open>df.head(n)\<close>: the first \<open>n\<close> rows, or all but the last \<open>-n\<close> rows for a negative \<open>n\<close>.\<close>

definition df_head :: "int \<Rightarrow> lyric_row list \<Rightarrow> lyric_row list" where
  "df_head n d = (if 0 \<le> n then take (nat n) d else take (length d - nat (- n)) d)"

text \<open>Lines 150-151: \<open>if max_tracks: df = df.head(start_index + max_tracks)\<close>.\<close>

definition truncated :: "lyric_row list \<Rightarrow> int \<Rightarrow> int option \<Rightarrow> lyric_row list" where
  "truncated input start_index max_tracks =
     (case max_tracks of
        None \<Rightarrow> input
      | Some m \<Rightarrow> if m \<noteq> 0 then df_head (start_index + m) input else input)"

text \<open>
  The test of line 167: \<open>pd.notna(row.get('lyrics')) and
  row['lyrics'] not in ['Skipped for speed', 'No lyrics available']\<close>.
\<close>

definition has_lyrics :: "lyric_row \<Rightarrow> bool" where
  "has_lyrics row =
     (case lr_lyrics row of
        None \<Rightarrow> False
      | Some l \<Rightarrow> l \<notin> set [''Skipped for speed'', ''No lyrics available''])"

text \<open>
  \<open>extract_full_lyrics\<close> (lines 62-144): its outer \<open>except Exception\<close> turns every exception
  into the string \<open>"Error: ..."\<close>; a \<open>KeyboardInterrupt\<close> goes through.
\<close>

definition extract_full_lyrics ::
  "lyr_env \<Rightarrow> string \<Rightarrow> string \<Rightarrow> lyrics_run \<Rightarrow> (exn + string) \<times> lyrics_run" where
  "extract_full_lyrics e tid tname s =
     (let s' = s\<lparr>calls := calls s @ [(tid, tname)], lticks := Suc (lticks s)\<rparr>
      in case lenv_extract e (lticks s) tid tname of
           Inr l \<Rightarrow> (Inr l, s')
         | Inl KeyboardInterrupt \<Rightarrow> (Inl KeyboardInterrupt, s')
         | Inl (Exception err) \<Rightarrow> (Inr (''Error: '' @ err), s'))"

text \<open>
  Lines 178-179: \<open>df.at[index, 'lyrics'] = lyrics\<close> and
  \<open>df.at[index, 'lyrics_processing_time'] = processing_time\<close>. The loop only passes labels of
  the frame itself, so the label is always in range.
\<close>

definition df_at :: "nat \<Rightarrow> string \<Rightarrow> real \<Rightarrow> lyric_row list \<Rightarrow> lyric_row list" where
  "df_at index new_lyrics processing_time d =
     d[index := (d ! index)\<lparr>lr_lyrics := Some new_lyrics, lr_time := Some processing_time\<rparr>]"

text \<open>\<open>df.to_csv(output_csv, index=False)\<close>: the frame is written, or the call raises.\<close>

definition to_csv :: "lyr_env \<Rightarrow> lyrics_run \<Rightarrow> exn option \<times> lyrics_run" where
  "to_csv e s =
     (case lenv_write e (lticks s) of
        Some x \<Rightarrow> (Some x, s\<lparr>lticks := Suc (lticks s)\<rparr>)
      | None \<Rightarrow> (None, s\<lparr>written := written s @ [df s], lticks := Suc (lticks s)\<rparr>))"

definition lyr_sleep :: "lyr_env \<Rightarrow> lyrics_run \<Rightarrow> bool \<times> lyrics_run" where
  "lyr_sleep e s = (lenv_sleep e (lticks s), s\<lparr>lticks := Suc (lticks s)\<rparr>)"

text \<open>
  Lines 195-199, the browser restart: \<open>self.driver.quit()\<close>, \<open>time.sleep(5)\<close>,
  \<open>self.setup_driver()\<close>.
\<close>

definition lyr_restart :: "lyr_env \<Rightarrow> lyrics_run \<Rightarrow> exn option \<times> lyrics_run" where
  "lyr_restart e s =
     (case lenv_quit e (lticks s) of
        Some x \<Rightarrow> (Some x, s\<lparr>lticks := Suc (lticks s)\<rparr>)
      | None \<Rightarrow>
          (case lyr_sleep e (s\<lparr>restarts := Suc (restarts s), lticks := Suc (lticks s)\<rparr>) of
             (True, s1) \<Rightarrow> (Some KeyboardInterrupt, s1)
           | (False, s1) \<Rightarrow> (lenv_setup e (lticks s1), s1\<lparr>lticks := Suc (lticks s1)\<rparr>)))"

text \<open>
  One iteration of the loop (lines 159-199) for the row \<open>row\<close> with label \<open>index\<close>. \<open>row\<close> is
  the copy that \<open>iterrows\<close> hands out; the frame being updated is \<open>df s\<close>.
\<close>

definition lyrics_row ::
  "lyr_env \<Rightarrow> int \<Rightarrow> nat \<Rightarrow> lyric_row \<Rightarrow> lyrics_run \<Rightarrow> exn option \<times> lyrics_run" where
  "lyrics_row e start_index index row s =
     (if int index < start_index then (None, s)
      else if has_lyrics row then (None, s)
      else
        case extract_full_lyrics e (lr_track_id row) (lr_track_name row) s of
          (Inl x, s1) \<Rightarrow> (Some x, s1)
        | (Inr new_lyrics, s1) \<Rightarrow>
            (let s2 = s1\<lparr>df := df_at index new_lyrics (lenv_elapsed e (lticks s)) (df s1),
                          total_processed := total_processed s1 + 1,
                          success_count :=
                            (if \<not> starts_with ''Error'' new_lyrics
                                \<and> new_lyrics \<noteq> ''No lyrics available''
                             then success_count s1 + 1 else success_count s1)\<rparr>
             in case (if total_processed s2 mod 10 = 0 then to_csv e s2 else (None, s2)) of
                  (Some x, s3) \<Rightarrow> (Some x, s3)
                | (None, s3) \<Rightarrow>
                    (case lyr_sleep e s3 of
                       (True, s4) \<Rightarrow> (Some KeyboardInterrupt, s4)
                     | (False, s4) \<Rightarrow>
                         if total_processed s4 mod 100 = 0 then lyr_restart e s4
                         else (None, s4))))"

text \<open>
  \<open>for index, row in df.iterrows()\<close> over the rows as they were when the loop began; an
  exception ends the loop.
\<close>

fun lyrics_loop ::
  "lyr_env \<Rightarrow> int \<Rightarrow> nat \<Rightarrow> lyric_row list \<Rightarrow> lyrics_run \<Rightarrow> exn option \<times> lyrics_run" where
  "lyrics_loop e start_index index [] s = (None, s)"
| "lyrics_loop e start_index index (row # rows) s =
     (case lyrics_row e start_index index row s of
        (Some x, s') \<Rightarrow> (Some x, s')
      | (None, s') \<Rightarrow> lyrics_loop e start_index (Suc index) rows s')"

text \<open>
  \<open>add_lyrics_to_csv\<close> on the frame \<open>input\<close> that \<open>pd.read_csv(input_csv)\<close> returned, in the
  world \<open>w\<close> (its local variables are set afresh). It returns the frame after the final
  save, or raises.
\<close>

definition add_lyrics_to_csv ::
  "lyr_env \<Rightarrow> lyric_row list \<Rightarrow> int \<Rightarrow> int option \<Rightarrow> lyrics_run
     \<Rightarrow> (exn + lyric_row list) \<times> lyrics_run" where
  "add_lyrics_to_csv e input start_index max_tracks w =
     (let d0 = truncated input start_index max_tracks;
          s0 = w\<lparr>df := d0, total_processed := 0, success_count := 0\<rparr>
      in case lyrics_loop e start_index 0 d0 s0 of
           (Some x, s1) \<Rightarrow> (Inl x, s1)
         | (None, s1) \<Rightarrow>
             (case to_csv e s1 of
                (Some x, s2) \<Rightarrow> (Inl x, s2)
              | (None, s2) \<Rightarrow> (Inr (df s2), s2)))"

text \<open>
  The rows the claim protects, in its words: the existing lyrics value is present
  (non-null) and is not one of the placeholder values "Skipped for speed" and
  "No lyrics available".
\<close>

definition lyrics_present :: "lyric_row \<Rightarrow> bool" where
  "lyrics_present row =
     (lr_lyrics row \<noteq> None \<and> lr_lyrics row \<noteq> Some ''Skipped for speed''
      \<and> lr_lyrics row \<noteq> Some ''No lyrics available'')"

text \<open>
  A frame \<open>d\<close> that differs from \<open>d0\<close> at most in rows from \<open>start_index\<close> on whose lyrics in
  \<open>d0\<close> are missing or a placeholder.
\<close>

definition kept :: "lyric_row list \<Rightarrow> int \<Rightarrow> lyric_row list \<Rightarrow> bool" where
  "kept d0 start_index d =
     (length d = length d0 \<and>
      (\<forall>i < length d0. lyrics_present (d0 ! i) \<or> int i < start_index \<longrightarrow> d ! i = d0 ! i))"

text \<open>The extractions a complete pass over \<open>rows\<close> has to make, in order.\<close>

definition due :: "int \<Rightarrow> lyric_row list \<Rightarrow> (string \<times> string) list" where
  "due start_index rows =
     map (\<lambda>r. (lr_track_id r, lr_track_name r))
       (filter (\<lambda>r. \<not> lyrics_present r) (drop (nat start_index) rows))"

definition lyr_env_ok :: lyr_env where
  "lyr_env_ok = \<lparr>lenv_extract = (\<lambda>t tid tname. Inr (''la la '' @ tid)),
                 lenv_elapsed = (\<lambda>t. 2), lenv_sleep = (\<lambda>t. False),
                 lenv_write = (\<lambda>t. None), lenv_quit = (\<lambda>t. None),
                 lenv_setup = (\<lambda>t. None)\<rparr>"

definition lyr_blank :: lyrics_run where
  "lyr_blank = \<lparr>df = [], total_processed = 0, success_count = 0, calls = [], written = [],
                restarts = 0, lticks = 0\<rparr>"

definition sample_frame :: "lyric_row list" where
  "sample_frame =
     [\<lparr>lr_track_id = ''a'', lr_track_name = ''A'', lr_lyrics = Some ''real words'', lr_time = None\<rparr>,
      \<lparr>lr_track_id = ''b'', lr_track_name = ''B'', lr_lyrics = None, lr_time = None\<rparr>,
      \<lparr>lr_track_id = ''c'', lr_track_name = ''C'', lr_lyrics = Some ''Skipped for speed'',
        lr_time = None\<rparr>,
      \<lparr>lr_track_id = ''d'', lr_track_name = ''D'', lr_lyrics = Some ''more words'', lr_time = None\<rparr>]"

text \<open>
  The invariant of the loop: the frame and every frame written since the call began are
  kept in that sense; \<open>before\<close> is what had been written when the call began.
\<close>

definition lyr_inv ::
  "lyric_row list \<Rightarrow> int \<Rightarrow> lyric_row list list \<Rightarrow> lyrics_run \<Rightarrow> bool" where
  "lyr_inv d0 start_index before s =
     (kept d0 start_index (df s) \<and>
      (\<exists>ws. written s = before @ ws \<and> (\<forall>d \<in> set ws. kept d0 start_index d)))"

lemma lyrics_present_eq [simp]: "lyrics_present row = has_lyrics row"
  by (cases "lr_lyrics row") (auto simp: lyrics_present_def has_lyrics_def)

section \<open>The retry controller: one step at a time\<close>

declare scrape_track_with_retry.simps [simp del]
declare str_nat.simps [simp del]

lemma call_scrape_track_simps [simp]:
  "fst (call_scrape_track e tid tname s) = env_scrape_track e (ticks s) tid tname"
  "max_retries (snd (call_scrape_track e tid tname s)) = max_retries s"
  "attempts (snd (call_scrape_track e tid tname s)) = Suc (attempts s)"
  by (simp_all add: call_scrape_track_def attempts_def)

lemma retry_returned:
  assumes "env_scrape_track e (ticks s) tid tname = Inr r"
      and "\<not> (error_marked r \<and> attempt < max_retries s)"
  shows "scrape_track_with_retry e tid tname attempt s
           = (Inr r, snd (call_scrape_track e tid tname s))"
  by (subst scrape_track_with_retry.simps) (use assms in \<open>auto simp: call_scrape_track_def\<close>)

lemma retry_interrupted:
  assumes "env_scrape_track e (ticks s) tid tname = Inl KeyboardInterrupt"
  shows "scrape_track_with_retry e tid tname attempt s
           = (Inl KeyboardInterrupt, snd (call_scrape_track e tid tname s))"
  by (subst scrape_track_with_retry.simps) (use assms in \<open>auto simp: call_scrape_track_def\<close>)

lemma retry_exhausted:
  assumes "env_scrape_track e (ticks s) tid tname = Inl (Exception err)"
      and "\<not> attempt < max_retries s"
  shows "scrape_track_with_retry e tid tname attempt s
           = (Inr (failure_result (max_retries s) tid tname err),
              (snd (call_scrape_track e tid tname s))
                \<lparr>failed_tracks := failed_tracks s @
                   [\<lparr>failed_id = tid, failed_name = tname, failed_error = err\<rparr>]\<rparr>)"
  by (subst scrape_track_with_retry.simps) (use assms in \<open>auto simp: call_scrape_track_def\<close>)

lemma retry_again:
  assumes "retryable (env_scrape_track e (ticks s) tid tname)"
      and "attempt < max_retries s"
  shows "scrape_track_with_retry e tid tname attempt s
           = (if env_sleep e (Suc (ticks s))
              then (Inl KeyboardInterrupt,
                    snd (time_sleep_uniform e 5 10 (snd (call_scrape_track e tid tname s))))
              else scrape_track_with_retry e tid tname (attempt + 1)
                    (snd (time_sleep_uniform e 5 10 (snd (call_scrape_track e tid tname s)))))"
proof (cases "env_scrape_track e (ticks s) tid tname")
  case (Inl x)
  with assms(1) obtain err where "x = Exception err"
    by (cases x) (simp_all add: retryable_def)
  with Inl assms(2) show ?thesis
    by (subst scrape_track_with_retry.simps)
       (simp add: call_scrape_track_def time_sleep_uniform_def)
next
  case (Inr r)
  with assms(1) have "error_marked r" by (simp add: retryable_def)
  with Inr assms(2) show ?thesis
    by (subst scrape_track_with_retry.simps)
       (simp add: call_scrape_track_def time_sleep_uniform_def)
qed


lemma after_backoff [simp]:
  "max_retries (snd (time_sleep_uniform e a b s)) = max_retries s"
  "attempts (snd (time_sleep_uniform e a b s)) = attempts s"
  by (simp_all add: time_sleep_uniform_def attempts_def)




lemma retry_stops_trace:
  assumes "\<not> (retryable (env_scrape_track e (ticks s) tid tname) \<and> attempt < max_retries s)"
  shows "trace (snd (scrape_track_with_retry e tid tname attempt s))
           = trace s @ [Scrape tid tname]"
proof (cases "env_scrape_track e (ticks s) tid tname")
  case (Inl x)
  show ?thesis
  proof (cases x)
    case KeyboardInterrupt
    with Inl show ?thesis by (simp add: retry_interrupted call_scrape_track_def)
  next
    case (Exception err)
    with Inl assms have "\<not> attempt < max_retries s" by (simp add: retryable_def)
    with Inl Exception show ?thesis
      by (simp add: retry_exhausted call_scrape_track_def)
  qed
next
  case (Inr r)
  with assms have "\<not> (error_marked r \<and> attempt < max_retries s)"
    by (simp add: retryable_def)
  with Inr show ?thesis by (simp add: retry_returned call_scrape_track_def)
qed

lemma retry_trace:
  "\<exists>evs. trace (snd (scrape_track_with_retry e tid tname a s))
            = trace s @ Scrape tid tname # evs
        \<and> backoffs evs = replicate (length (backoffs evs)) (5, 10)
        \<and> (retryable (env_scrape_track e (ticks s) tid tname) \<and> a < max_retries s
             \<longrightarrow> (\<exists>evs'. evs = SleepUniform 5 10 # evs'))
        \<and> (\<not> (retryable (env_scrape_track e (ticks s) tid tname) \<and> a < max_retries s)
             \<longrightarrow> evs = [])"
proof (induction "nat (max_retries s - a)" arbitrary: a s)
  case 0
  then have "\<not> a < max_retries s" by simp
  then show ?case using retry_stops_trace [of e s tid tname a] by simp
next
  case (Suc n)
  then have lt: "a < max_retries s" by simp
  let ?s2 = "snd (time_sleep_uniform e 5 10 (snd (call_scrape_track e tid tname s)))"
  have tr2: "trace ?s2 = trace s @ [Scrape tid tname, SleepUniform 5 10]"
    by (simp add: time_sleep_uniform_def call_scrape_track_def)
  show ?case
  proof (cases "retryable (env_scrape_track e (ticks s) tid tname)")
    case False
    then show ?thesis using retry_stops_trace [of e s tid tname a] by simp
  next
    case True
    show ?thesis
    proof (cases "env_sleep e (Suc (ticks s))")
      case True
      with \<open>retryable _\<close> lt tr2 show ?thesis by (simp add: retry_again)
    next
      case False
      have "n = nat (max_retries ?s2 - (a + 1))" using Suc(2) by simp
      from Suc(1) [OF this] obtain evs where
        evs: "trace (snd (scrape_track_with_retry e tid tname (a + 1) ?s2))
                = trace ?s2 @ Scrape tid tname # evs"
             "backoffs evs = replicate (length (backoffs evs)) (5, 10)" by blast
      have "trace (snd (scrape_track_with_retry e tid tname a s))
              = trace s @ Scrape tid tname # (SleepUniform 5 10 # Scrape tid tname # evs)"
        using False \<open>retryable _\<close> lt evs(1) tr2 by (simp add: retry_again)
      moreover have "backoffs (SleepUniform 5 10 # Scrape tid tname # evs)
              = replicate (length (backoffs (SleepUniform 5 10 # Scrape tid tname # evs))) (5, 10)"
        using evs(2) by simp
      ultimately show ?thesis using \<open>retryable _\<close> lt by blast
    qed
  qed
qed

lemma retry_shape:
  assumes "never_interrupted e"
  shows "\<exists>k. trace (snd (scrape_track_with_retry e tid tname a s))
            = trace s @ Scrape tid tname #
              concat (replicate k [SleepUniform 5 10, Scrape tid tname])"
proof (induction "nat (max_retries s - a)" arbitrary: a s)
  case 0
  then have "\<not> a < max_retries s" by simp
  then have "trace (snd (scrape_track_with_retry e tid tname a s))
            = trace s @ Scrape tid tname # concat (replicate 0 [SleepUniform 5 10, Scrape tid tname])"
    using retry_stops_trace [of e s tid tname a] by simp
  then show ?case by blast
next
  case (Suc n)
  then have lt: "a < max_retries s" by simp
  let ?s2 = "snd (time_sleep_uniform e 5 10 (snd (call_scrape_track e tid tname s)))"
  have tr2: "trace ?s2 = trace s @ [Scrape tid tname, SleepUniform 5 10]"
    by (simp add: time_sleep_uniform_def call_scrape_track_def)
  show ?case
  proof (cases "retryable (env_scrape_track e (ticks s) tid tname)")
    case False
    then have "trace (snd (scrape_track_with_retry e tid tname a s))
            = trace s @ Scrape tid tname # concat (replicate 0 [SleepUniform 5 10, Scrape tid tname])"
      using retry_stops_trace [of e s tid tname a] by simp
    then show ?thesis by blast
  next
    case True
    have ns: "\<not> env_sleep e (Suc (ticks s))"
      using assms by (simp add: never_interrupted_def)
    have "n = nat (max_retries ?s2 - (a + 1))" using Suc(2) by simp
    from Suc(1) [OF this] obtain k where
      k: "trace (snd (scrape_track_with_retry e tid tname (a + 1) ?s2))
                = trace ?s2 @ Scrape tid tname #
                  concat (replicate k [SleepUniform 5 10, Scrape tid tname])" by blast
    have "trace (snd (scrape_track_with_retry e tid tname a s))
            = trace s @ Scrape tid tname #
              concat (replicate (Suc k) [SleepUniform 5 10, Scrape tid tname])"
      using ns True lt k tr2 by (simp add: retry_again)
    then show ?thesis by blast
  qed
qed

lemma backoffs_shape [simp]:
  "backoffs (concat (replicate k [SleepUniform a b, Scrape tid tname])) = replicate k (a, b)"
  by (induction k) simp_all

lemma new_events_append: "trace s' = trace s @ evs \<Longrightarrow> new_events s s' = evs"
  by (simp add: new_events_def)


lemma spec_retryable_eq: "spec_retryable out = retryable out"
  by (simp add: spec_retryable_def retryable_def error_marked_def split: sum.splits exn.splits)

section \<open>Claims about the retry controller\<close>





text \<open>
  C2. While \<open>attempt < max_retries\<close>, the controller backs off and makes another attempt
  exactly when the outcome is retryable in the words of the specification: the attempt
  raised an exception or the lyrics or cover image field holds "Error". A returned result
  without the marker is handed back at once, whatever the attempt number: the call adds
  the one extractor call to the trace and no sleep.
\<close>

theorem retry_classification:
  "(attempt < max_retries s \<longrightarrow>
      ((\<exists>evs. new_events s (snd (scrape_track_with_retry e tid tname attempt s))
                = Scrape tid tname # SleepUniform 5 10 # evs)
       \<longleftrightarrow> spec_retryable (env_scrape_track e (ticks s) tid tname)))
   \<and> (env_scrape_track e (ticks s) tid tname = Inr r \<and> \<not> spec_retryable (Inr r) \<longrightarrow>
        scrape_track_with_retry e tid tname attempt s
          = (Inr r, s\<lparr>trace := trace s @ [Scrape tid tname], ticks := Suc (ticks s)\<rparr>))"
proof (intro conjI impI)
  assume lt: "attempt < max_retries s"
  from retry_trace [of e tid tname attempt s] obtain evs where
    evs: "trace (snd (scrape_track_with_retry e tid tname attempt s))
            = trace s @ Scrape tid tname # evs"
         "retryable (env_scrape_track e (ticks s) tid tname) \<and> attempt < max_retries s
             \<longrightarrow> (\<exists>evs'. evs = SleepUniform 5 10 # evs')"
         "\<not> (retryable (env_scrape_track e (ticks s) tid tname) \<and> attempt < max_retries s)
             \<longrightarrow> evs = []" by blast
  have ne: "new_events s (snd (scrape_track_with_retry e tid tname attempt s))
              = Scrape tid tname # evs"
    using evs(1) by (rule new_events_append)
  show "(\<exists>evs. new_events s (snd (scrape_track_with_retry e tid tname attempt s))
                = Scrape tid tname # SleepUniform 5 10 # evs)
       \<longleftrightarrow> spec_retryable (env_scrape_track e (ticks s) tid tname)"
  proof (cases "retryable (env_scrape_track e (ticks s) tid tname)")
    case True
    with evs(2) lt ne show ?thesis by (auto simp: spec_retryable_eq)
  next
    case False
    with evs(3) ne show ?thesis by (simp add: spec_retryable_eq)
  qed
next
  assume a: "env_scrape_track e (ticks s) tid tname = Inr r \<and> \<not> spec_retryable (Inr r)"
  then have "\<not> (error_marked r \<and> attempt < max_retries s)"
    by (simp add: spec_retryable_eq retryable_def)
  with a show "scrape_track_with_retry e tid tname attempt s
          = (Inr r, s\<lparr>trace := trace s @ [Scrape tid tname], ticks := Suc (ticks s)\<rparr>)"
    by (simp add: retry_returned call_scrape_track_def)
qed

theorem retry_classification_witness:
  "(1::int) < max_retries blank
   \<and> spec_retryable (env_scrape_track env_boom (ticks blank) ''t1'' ''Song'')
   \<and> (\<exists>evs. new_events blank (snd (scrape_track_with_retry env_boom ''t1'' ''Song'' 1 blank))
                = Scrape ''t1'' ''Song'' # SleepUniform 5 10 # evs)
   \<and> \<not> spec_retryable (env_scrape_track env_quiet (ticks blank) ''t1'' ''Song'')
   \<and> new_events blank (snd (scrape_track_with_retry env_quiet ''t1'' ''Song'' 1 blank))
        = [Scrape ''t1'' ''Song'']"
proof -
  have lt: "(1::int) < max_retries blank" by (simp add: blank_def)
  have b: "spec_retryable (env_scrape_track env_boom (ticks blank) ''t1'' ''Song'')"
    by (simp add: spec_retryable_def env_boom_def)
  have q: "\<not> spec_retryable (env_scrape_track env_quiet (ticks blank) ''t1'' ''Song'')"
    by (simp add: spec_retryable_def env_quiet_def)
  have qr: "env_scrape_track env_quiet (ticks blank) ''t1'' ''Song''
      = Inr \<lparr>track_id = ''t1'', track_name = ''Song'',
             spotify_url = ''https://open.spotify.com/track/t1'',
             lyrics = ''la la'', cover_image_url = ''https://i.scdn.co/image/x''\<rparr>"
    by (simp add: env_quiet_def)
  from retry_classification [of 1 blank env_boom "''t1''" "''Song''"] lt b
  have 1: "\<exists>evs. new_events blank (snd (scrape_track_with_retry env_boom ''t1'' ''Song'' 1 blank))
                = Scrape ''t1'' ''Song'' # SleepUniform 5 10 # evs" by blast
  from retry_classification [of 1 blank env_quiet "''t1''" "''Song''"] q qr
  have "scrape_track_with_retry env_quiet ''t1'' ''Song'' 1 blank
          = (Inr \<lparr>track_id = ''t1'', track_name = ''Song'',
             spotify_url = ''https://open.spotify.com/track/t1'',
             lyrics = ''la la'', cover_image_url = ''https://i.scdn.co/image/x''\<rparr>,
             blank\<lparr>trace := trace blank @ [Scrape ''t1'' ''Song''], ticks := Suc (ticks blank)\<rparr>)"
    by simp
  then have 2: "new_events blank (snd (scrape_track_with_retry env_quiet ''t1'' ''Song'' 1 blank))
        = [Scrape ''t1'' ''Song'']" by (simp add: new_events_def)
  from lt b 1 q 2 show ?thesis by simp
qed

text \<open>
  C6 (amended). Every backoff between two attempts for one item is drawn from the same
  fixed window [5, 10], whatever the attempt number: the window of a later retry is at
  least that of the earlier one (it is the same) and does not grow. When no sleep is
  interrupted the attempts and the backoffs alternate: exactly one backoff lies between
  two successive attempts. The window (width 5) is wider than the steady-state
  inter-request window while the success rate is at least 0.8 ([2, 5] or [1.6, 4]); below
  0.8 the steady-state window is [3, 10], which is wider (7) and has the same upper bound.
  For every success rate the backoff starts above the lower bound of the steady-state
  window.
\<close>

theorem backoff_window_fixed:
  "backoffs (new_events s (snd (scrape_track_with_retry e tid tname a s)))
     = replicate (length (backoffs (new_events s
          (snd (scrape_track_with_retry e tid tname a s))))) (5, 10)
   \<and> (never_interrupted e \<longrightarrow>
        (\<exists>k. new_events s (snd (scrape_track_with_retry e tid tname a s))
               = Scrape tid tname # concat (replicate k [SleepUniform 5 10, Scrape tid tname])))
   \<and> (0.8 \<le> sr \<longrightarrow> window_width (adaptive_range sr 2 5) < window_width (5, 10))
   \<and> (sr < 0.8 \<longrightarrow> adaptive_range sr 2 5 = (3, 10)
                    \<and> window_width (5, 10) < window_width (adaptive_range sr 2 5))
   \<and> fst (adaptive_range sr 2 5) < 5"
proof (intro conjI impI)
  from retry_trace [of e tid tname a s] obtain evs where
    evs: "trace (snd (scrape_track_with_retry e tid tname a s))
            = trace s @ Scrape tid tname # evs"
         "backoffs evs = replicate (length (backoffs evs)) (5, 10)" by blast
  have "new_events s (snd (scrape_track_with_retry e tid tname a s)) = Scrape tid tname # evs"
    using evs(1) by (rule new_events_append)
  with evs(2) show "backoffs (new_events s (snd (scrape_track_with_retry e tid tname a s)))
     = replicate (length (backoffs (new_events s
          (snd (scrape_track_with_retry e tid tname a s))))) (5, 10)" by simp
next
  assume "never_interrupted e"
  from retry_shape [OF this, of tid tname a s] obtain k where
    "trace (snd (scrape_track_with_retry e tid tname a s))
            = trace s @ Scrape tid tname #
              concat (replicate k [SleepUniform 5 10, Scrape tid tname])" by blast
  then have "new_events s (snd (scrape_track_with_retry e tid tname a s))
               = Scrape tid tname # concat (replicate k [SleepUniform 5 10, Scrape tid tname])"
    by (rule new_events_append)
  then show "\<exists>k. new_events s (snd (scrape_track_with_retry e tid tname a s))
               = Scrape tid tname # concat (replicate k [SleepUniform 5 10, Scrape tid tname])"
    by blast
next
  assume "0.8 \<le> sr"
  then show "window_width (adaptive_range sr 2 5) < window_width (5, 10)"
    by (simp add: adaptive_range_def window_width_def)
next
  assume "sr < 0.8"
  then show "adaptive_range sr 2 5 = (3, 10)" by (simp add: adaptive_range_def)
next
  assume "sr < 0.8"
  then show "window_width (5, 10) < window_width (adaptive_range sr 2 5)"
    by (simp add: adaptive_range_def window_width_def)
next
  show "fst (adaptive_range sr 2 5) < 5" by (simp add: adaptive_range_def)
qed

theorem backoff_window_fixed_witness:
  "never_interrupted env_boom
   \<and> new_events blank (snd (scrape_track_with_retry env_boom ''t1'' ''Song'' 1 blank))
       = [Scrape ''t1'' ''Song'', SleepUniform 5 10, Scrape ''t1'' ''Song'',
          SleepUniform 5 10, Scrape ''t1'' ''Song'']
   \<and> (\<exists>k. new_events blank (snd (scrape_track_with_retry env_boom ''t1'' ''Song'' 1 blank))
               = Scrape ''t1'' ''Song'' #
                 concat (replicate k [SleepUniform 5 10, Scrape ''t1'' ''Song'']))
   \<and> (0.8::real) \<le> 0.9
   \<and> window_width (adaptive_range 0.9 2 5) < window_width (5, 10)
   \<and> (0.5::real) < 0.8
   \<and> adaptive_range 0.5 2 5 = (3, 10)
   \<and> window_width (5, 10) < window_width (adaptive_range 0.5 2 5)"
proof -
  have n: "never_interrupted env_boom" by (simp add: never_interrupted_def env_boom_def)
  have t: "new_events blank (snd (scrape_track_with_retry env_boom ''t1'' ''Song'' 1 blank))
       = [Scrape ''t1'' ''Song'', SleepUniform 5 10, Scrape ''t1'' ''Song'',
          SleepUniform 5 10, Scrape ''t1'' ''Song'']"
    by (simp add: scrape_track_with_retry.simps env_boom_def blank_def new_events_def
        call_scrape_track_def time_sleep_uniform_def)
  have hi: "(0.8::real) \<le> 0.9" and lo: "(0.5::real) < 0.8" by simp_all
  from backoff_window_fixed [of blank env_boom "''t1''" "''Song''" 1 "0.9"] n hi
  have 1: "\<exists>k. new_events blank (snd (scrape_track_with_retry env_boom ''t1'' ''Song'' 1 blank))
               = Scrape ''t1'' ''Song'' #
                 concat (replicate k [SleepUniform 5 10, Scrape ''t1'' ''Song''])"
    and 2: "window_width (adaptive_range 0.9 2 5) < window_width (5, 10)"
    by blast+
  from backoff_window_fixed [of blank env_boom "''t1''" "''Song''" 1 "0.5"] lo
  have 3: "adaptive_range 0.5 2 5 = (3, 10)"
    and 4: "window_width (5, 10) < window_width (adaptive_range 0.5 2 5)"
    by blast+
  from n t 1 hi 2 lo 3 4 show ?thesis by blast
qed

text \<open>
  C6 as stated fails twice. With an extractor that always raises and \<open>max_retries = 3\<close> the
  two backoffs of one item have the same window [5, 10]: the later one is not wider. And
  at a success rate of 0.5 the steady-state window is [3, 10]: the backoff window is not
  wider than it.
\<close>

theorem backoff_growth_counterexample:
  "backoffs (new_events blank (snd (scrape_track_with_retry env_boom ''t1'' ''Song'' 1 blank)))
     = [(5, 10), (5, 10)]
   \<and> \<not> (window_width (5, 10) < window_width (5, 10))
   \<and> adaptive_range 0.5 2 5 = (3, 10)
   \<and> \<not> (window_width (adaptive_range 0.5 2 5) < window_width (5, 10))"
  by (simp add: scrape_track_with_retry.simps env_boom_def blank_def new_events_def
      call_scrape_track_def time_sleep_uniform_def window_width_def adaptive_range_def)

text \<open>
  C4, on the code: when every attempt returns a result whose lyrics hold "Error", the
  controller gives the last such result back after three attempts and appends nothing to
  \<open>failed_tracks\<close>.
\<close>

theorem error_marked_exhaustion_unrecorded:
  "scrape_track_with_retry env_error ''t1'' ''Song'' 1 blank
     = (Inr \<lparr>track_id = ''t1'', track_name = ''Song'',
             spotify_url = ''https://open.spotify.com/track/t1'',
             lyrics = ''Error extracting lyrics'',
             cover_image_url = ''No image available''\<rparr>,
        blank\<lparr>trace := [Scrape ''t1'' ''Song'', SleepUniform 5 10, Scrape ''t1'' ''Song'',
                         SleepUniform 5 10, Scrape ''t1'' ''Song''],
               ticks := 5\<rparr>)
   \<and> failed_tracks (snd (scrape_track_with_retry env_error ''t1'' ''Song'' 1 blank)) = []"
  by (simp add: scrape_track_with_retry.simps env_error_def blank_def error_marked_def
      call_scrape_track_def time_sleep_uniform_def)


section \<open>Claims about the rate controller and the estimate\<close>

text \<open>
  C3. \<open>adaptive_delay\<close> with the base range [2, 5] sleeps for a value drawn by
  \<open>random.uniform\<close> from [3, 10] when the success rate is below 0.8, from [1.6, 4] when
  it is above 0.95, and from [2, 5] otherwise; whatever the sample \<open>u\<close> in [0, 1], the
  drawn value lies in the chosen range.
\<close>

theorem rate_adaptation:
  assumes "0 \<le> u" "u \<le> 1"
  shows "(sr < 0.8 \<longrightarrow>
            trace (snd (adaptive_delay e sr 2 5 s)) = trace s @ [SleepUniform 3 10]
          \<and> 3 \<le> random_uniform 3 10 u \<and> random_uniform 3 10 u \<le> 10)
       \<and> (sr > 0.95 \<longrightarrow>
            trace (snd (adaptive_delay e sr 2 5 s)) = trace s @ [SleepUniform 1.6 4]
          \<and> 1.6 \<le> random_uniform 1.6 4 u \<and> random_uniform 1.6 4 u \<le> 4)
       \<and> (0.8 \<le> sr \<and> sr \<le> 0.95 \<longrightarrow>
            trace (snd (adaptive_delay e sr 2 5 s)) = trace s @ [SleepUniform 2 5]
          \<and> 2 \<le> random_uniform 2 5 u \<and> random_uniform 2 5 u \<le> 5)"
proof (intro conjI impI)
  assume "sr < 0.8"
  then show "trace (snd (adaptive_delay e sr 2 5 s)) = trace s @ [SleepUniform 3 10]"
    by (simp add: adaptive_delay_def adaptive_range_def random_delay_def time_sleep_uniform_def)
next
  assume "sr > 0.95"
  then show "trace (snd (adaptive_delay e sr 2 5 s)) = trace s @ [SleepUniform 1.6 4]"
    by (simp add: adaptive_delay_def adaptive_range_def random_delay_def time_sleep_uniform_def)
next
  assume "0.8 \<le> sr \<and> sr \<le> 0.95"
  then show "trace (snd (adaptive_delay e sr 2 5 s)) = trace s @ [SleepUniform 2 5]"
    by (simp add: adaptive_delay_def adaptive_range_def random_delay_def time_sleep_uniform_def)
qed (use assms in \<open>simp_all add: random_uniform_def\<close>)

theorem rate_adaptation_witness:
  "(0::real) \<le> 1/2 \<and> (1/2::real) \<le> 1
   \<and> trace (snd (adaptive_delay env_quiet 0.5 2 5 blank)) = [SleepUniform 3 10]
   \<and> trace (snd (adaptive_delay env_quiet 0.99 2 5 blank)) = [SleepUniform 1.6 4]
   \<and> trace (snd (adaptive_delay env_quiet 0.85 2 5 blank)) = [SleepUniform 2 5]
   \<and> 3 \<le> random_uniform 3 10 (1/2) \<and> random_uniform 3 10 (1/2) \<le> 10"
proof -
  have u: "(0::real) \<le> 1/2" "(1/2::real) \<le> 1" by simp_all
  have e: "trace blank = []" by (simp add: blank_def)
  from rate_adaptation [OF u, where sr = "0.5" and e = env_quiet and s = blank]
       rate_adaptation [OF u, where sr = "0.99" and e = env_quiet and s = blank]
       rate_adaptation [OF u, where sr = "0.85" and e = env_quiet and s = blank] e u
  show ?thesis by simp
qed

text \<open>
  C9. \<open>calculate_eta\<close> returns "Unknown" when \<open>completed = 0\<close>; for any other completed
  count and a positive elapsed time neither division raises and a string is returned. The
  only raise is the division by an elapsed time of zero.
\<close>

theorem calculate_eta_safe:
  "(completed = 0 \<longrightarrow> calculate_eta completed total_n elapsed = Inr ''Unknown'')
   \<and> (completed \<noteq> 0 \<and> 0 < elapsed \<longrightarrow>
        (\<exists>txt. calculate_eta completed total_n elapsed = Inr txt))
   \<and> (completed \<noteq> 0 \<and> elapsed = 0 \<longrightarrow>
        (\<exists>x. calculate_eta completed total_n elapsed = Inl x))"
  by (simp add: calculate_eta_def py_truediv_def Let_def)

theorem calculate_eta_safe_witness:
  "calculate_eta 0 100 50 = Inr ''Unknown''
   \<and> ((25::int) \<noteq> 0 \<and> (0::real) < 50)
   \<and> (\<exists>txt. calculate_eta 25 100 50 = Inr txt)
   \<and> (\<exists>x. calculate_eta 25 100 0 = Inl x)"
  using calculate_eta_safe [of 0 100 50] calculate_eta_safe [of 25 100 50]
        calculate_eta_safe [of 25 100 0]
  by simp

section \<open>The session across a run\<close>

lemma session_view_append [simp]:
  "session_view (xs @ ys) = session_view xs @ session_view ys"
  by (induction xs rule: session_view.induct) simp_all

lemma same_session_refl [simp]: "same_session s s"
  by (simp add: same_session_def)

lemma same_session_trans: "same_session s s' \<Longrightarrow> same_session s' s'' \<Longrightarrow> same_session s s''"
  by (simp add: same_session_def)

lemma same_session_scrape [simp]: "same_session s (snd (call_scrape_track e tid tname s))"
  by (simp add: same_session_def call_scrape_track_def)

lemma same_session_sleep_uniform [simp]: "same_session s (snd (time_sleep_uniform e a b s))"
  by (simp add: same_session_def time_sleep_uniform_def)

lemma same_session_failed [simp]: "same_session s (s\<lparr>failed_tracks := ft\<rparr>)"
  by (simp add: same_session_def)

lemma retry_stops_session:
  assumes "\<not> (retryable (env_scrape_track e (ticks s) tid tname) \<and> attempt < max_retries s)"
  shows "same_session s (snd (scrape_track_with_retry e tid tname attempt s))"
proof (cases "env_scrape_track e (ticks s) tid tname")
  case (Inl x)
  show ?thesis
  proof (cases x)
    case KeyboardInterrupt
    with Inl show ?thesis by (simp add: retry_interrupted)
  next
    case (Exception err)
    with Inl assms have "\<not> attempt < max_retries s" by (simp add: retryable_def)
    with Inl Exception show ?thesis
      by (simp add: retry_exhausted same_session_def call_scrape_track_def)
  qed
next
  case (Inr r)
  with assms have "\<not> (error_marked r \<and> attempt < max_retries s)"
    by (simp add: retryable_def)
  with Inr show ?thesis by (simp add: retry_returned)
qed

lemma retry_session: "same_session s (snd (scrape_track_with_retry e tid tname a s))"
proof (induction "nat (max_retries s - a)" arbitrary: a s)
  case 0
  then have "\<not> a < max_retries s" by simp
  then show ?case by (simp add: retry_stops_session)
next
  case (Suc n)
  then have lt: "a < max_retries s" by simp
  let ?s2 = "snd (time_sleep_uniform e 5 10 (snd (call_scrape_track e tid tname s)))"
  have w2: "same_session s ?s2"
    by (rule same_session_trans [OF same_session_scrape same_session_sleep_uniform])
  show ?case
  proof (cases "retryable (env_scrape_track e (ticks s) tid tname)")
    case False
    then show ?thesis by (simp add: retry_stops_session)
  next
    case True
    show ?thesis
    proof (cases "env_sleep e (Suc (ticks s))")
      case True
      with \<open>retryable _\<close> lt w2 show ?thesis by (simp add: retry_again)
    next
      case False
      have "n = nat (max_retries ?s2 - (a + 1))" using Suc(2) by simp
      from Suc(1) [OF this] have "same_session ?s2
           (snd (scrape_track_with_retry e tid tname (a + 1) ?s2))" .
      with w2 have "same_session s (snd (scrape_track_with_retry e tid tname (a + 1) ?s2))"
        by (rule same_session_trans)
      with False \<open>retryable _\<close> lt show ?thesis by (simp add: retry_again)
    qed
  qed
qed

lemma production_loop_drop:
  "production_loop e start_index index rows st
     = process_in_order e (drop (nat (start_index - index)) rows) st"
proof (induction rows arbitrary: index st)
  case Nil
  show ?case by simp
next
  case (Cons row rows)
  show ?case
  proof (cases "index < start_index")
    case True
    then have "nat (start_index - index) = Suc (nat (start_index - (index + 1)))" by simp
    with True Cons show ?thesis by simp
  next
    case False
    then have z: "nat (start_index - index) = 0" "nat (start_index - (index + 1)) = 0"
      by simp_all
    with False Cons [of "index + 1"] show ?thesis
      by (simp split: prod.splits option.splits)
  qed
qed

lemma same_session_inv: "same_session s s' \<Longrightarrow> sess_inv s \<Longrightarrow> sess_inv s'"
  by (simp add: same_session_def sess_inv_def)

lemma same_session_results: "same_session s s' \<Longrightarrow> results s' = results s"
  by (simp add: same_session_def)

lemma adaptive_delay_session [simp]:
  "same_session s (snd (adaptive_delay e sr a b s))"
  by (simp add: adaptive_delay_def random_delay_def split: prod.splits)

lemma progress_save_session [simp]: "same_session s (progress_save c s)"
  by (simp add: progress_save_def save_progress_def same_session_def)

lemma extended_break_session [simp]: "same_session s (snd (extended_break e c s))"
  by (simp add: extended_break_def)

lemma save_progress_session [simp]: "same_session s (save_progress fn s)"
  by (simp add: save_progress_def same_session_def)

lemma setup_driver_inv: "live s = {} \<Longrightarrow> sess_inv (snd (setup_driver e s))"
  by (simp add: setup_driver_def sess_inv_def Let_def split: setup_outcome.splits)

lemma setup_driver_ok:
  assumes "setup_driver e s = (None, s')"
  shows "results s' = results s \<and> max_retries s' = max_retries s
       \<and> trace s' = trace s @ [SetupDriver (next_session s)]"
proof (cases "env_setup e (ticks s)")
  case SetupOk
  with assms show ?thesis by (auto simp: setup_driver_def Let_def)
next
  case (ChromeFailed x)
  with assms show ?thesis by (simp add: setup_driver_def Let_def)
next
  case (ScriptFailed x)
  with assms show ?thesis by (simp add: setup_driver_def Let_def)
qed

lemma time_sleep_snd: "snd (time_sleep e c s) = s\<lparr>trace := trace s @ [Sleep c], ticks := Suc (ticks s)\<rparr>"
  by (simp add: time_sleep_def)

lemma browser_restart_inv:
  assumes "sess_inv s"
  shows "sess_inv (snd (browser_restart e c s))"
proof (cases "c mod 300 = 0")
  case False
  with assms show ?thesis by (simp add: browser_restart_def)
next
  case True
  show ?thesis
  proof (cases "driver s")
    case None
    with True assms show ?thesis by (simp add: browser_restart_def driver_quit_def)
  next
    case (Some h)
    let ?s1 = "s\<lparr>live := live s - {h}, trace := trace s @ [DriverQuit h]\<rparr>"
    have q: "driver_quit s = (None, ?s1)" using Some by (simp add: driver_quit_def)
    obtain b2 s2 where e2: "time_sleep e 10 ?s1 = (b2, s2)" by (cases "time_sleep e 10 ?s1")
    obtain x3 s3 where e3: "setup_driver e s2 = (x3, s3)" by (cases "setup_driver e s2")
    obtain b4 s4 where e4: "time_sleep e 5 s3 = (b4, s4)" by (cases "time_sleep e 5 s3")
    have l1: "live ?s1 = {}" using assms Some by (auto simp: sess_inv_def)
    have "s2 = snd (time_sleep e 10 ?s1)" using e2 by simp
    then have l2: "live s2 = {}" using l1 by (simp add: time_sleep_snd)
    have i2: "sess_inv s2" using l2 by (simp add: sess_inv_def)
    have i3: "sess_inv s3" using setup_driver_inv [OF l2, of e] e3 by simp
    have "s4 = snd (time_sleep e 5 s3)" using e4 by simp
    then have i4: "sess_inv s4" using i3 by (simp add: time_sleep_snd sess_inv_def)
    show ?thesis
    proof (cases b2)
      case True
      with \<open>c mod 300 = 0\<close> q e2 i2 show ?thesis by (simp add: browser_restart_def)
    next
      case b2: False
      show ?thesis
      proof (cases x3)
        case (Some x)
        with b2 \<open>c mod 300 = 0\<close> q e2 e3 i3 show ?thesis by (simp add: browser_restart_def)
      next
        case None
        with b2 \<open>c mod 300 = 0\<close> q e2 e3 e4 i4 show ?thesis
          by (cases b4) (simp_all add: browser_restart_def)
      qed
    qed
  qed
qed

lemma browser_restart_ok:
  assumes "browser_restart e c s = (None, s')"
  shows "results s' = results s \<and> max_retries s' = max_retries s
       \<and> session_view (trace s') = session_view (trace s) @
            (if c mod 300 = 0 then [Release, Pause 10, Acquire, Pause 5] else [])"
proof (cases "c mod 300 = 0")
  case False
  with assms show ?thesis by (simp add: browser_restart_def)
next
  case True
  show ?thesis
  proof (cases "driver s")
    case None
    with True assms show ?thesis by (simp add: browser_restart_def driver_quit_def)
  next
    case (Some h)
    let ?s1 = "s\<lparr>live := live s - {h}, trace := trace s @ [DriverQuit h]\<rparr>"
    have q: "driver_quit s = (None, ?s1)" using Some by (simp add: driver_quit_def)
    obtain b2 s2 where e2: "time_sleep e 10 ?s1 = (b2, s2)" by (cases "time_sleep e 10 ?s1")
    obtain x3 s3 where e3: "setup_driver e s2 = (x3, s3)" by (cases "setup_driver e s2")
    obtain b4 s4 where e4: "time_sleep e 5 s3 = (b4, s4)" by (cases "time_sleep e 5 s3")
    have s2: "s2 = snd (time_sleep e 10 ?s1)" using e2 by simp
    have s4: "s4 = snd (time_sleep e 5 s3)" using e4 by simp
    from assms True q e2 have b2: "\<not> b2" by (cases b2) (simp_all add: browser_restart_def)
    from assms True q e2 e3 b2 have x3: "x3 = None"
      by (cases x3) (simp_all add: browser_restart_def)
    from assms True q e2 e3 e4 b2 x3 have b4: "\<not> b4" and s': "s' = s4"
      by (cases b4; simp add: browser_restart_def)+
    from e3 x3 have t3: "results s3 = results s2 \<and> max_retries s3 = max_retries s2
       \<and> trace s3 = trace s2 @ [SetupDriver (next_session s2)]"
      using setup_driver_ok [of e s2 s3] by simp
    show ?thesis using True s' s4 t3 s2 by (simp add: time_sleep_snd)
  qed
qed

lemma session_proj:
  assumes "same_session s s'"
  shows "results s' = results s" "max_retries s' = max_retries s"
        "session_view (trace s') = session_view (trace s)"
  using assms by (simp_all add: same_session_def)

lemmas retry_proj [simp] = session_proj [OF retry_session]

lemmas adaptive_delay_proj [simp] = session_proj [OF adaptive_delay_session]

lemmas progress_save_proj [simp] = session_proj [OF progress_save_session]

lemmas extended_break_proj [simp] = session_proj [OF extended_break_session]

lemmas save_progress_proj [simp] = session_proj [OF save_progress_session]

lemma sess_inv_steps [simp]:
  "sess_inv s \<Longrightarrow> sess_inv (snd (scrape_track_with_retry e tid tname a s))"
  "sess_inv s \<Longrightarrow> sess_inv (s\<lparr>results := rs\<rparr>)"
  "sess_inv s \<Longrightarrow> sess_inv (snd (adaptive_delay e sr lo hi s))"
  "sess_inv s \<Longrightarrow> sess_inv (progress_save c s)"
  "sess_inv s \<Longrightarrow> sess_inv (snd (extended_break e c s))"
  "sess_inv s \<Longrightarrow> sess_inv (save_progress fn s)"
  "sess_inv s \<Longrightarrow> sess_inv (s\<lparr>failed_csv := fc\<rparr>)"
proof -
  show "sess_inv s \<Longrightarrow> sess_inv (snd (scrape_track_with_retry e tid tname a s))"
    by (rule same_session_inv [OF retry_session])
  show "sess_inv s \<Longrightarrow> sess_inv (s\<lparr>results := rs\<rparr>)" by (simp add: sess_inv_def)
  show "sess_inv s \<Longrightarrow> sess_inv (snd (adaptive_delay e sr lo hi s))"
    by (rule same_session_inv [OF adaptive_delay_session])
  show "sess_inv s \<Longrightarrow> sess_inv (progress_save c s)"
    by (rule same_session_inv [OF progress_save_session])
  show "sess_inv s \<Longrightarrow> sess_inv (snd (extended_break e c s))"
    by (rule same_session_inv [OF extended_break_session])
  show "sess_inv s \<Longrightarrow> sess_inv (save_progress fn s)"
    by (rule same_session_inv [OF save_progress_session])
  show "sess_inv s \<Longrightarrow> sess_inv (s\<lparr>failed_csv := fc\<rparr>)" by (simp add: sess_inv_def)
qed

lemma browser_restart_proj:
  assumes "fst (browser_restart e c s) = None"
  shows "results (snd (browser_restart e c s)) = results s"
        "max_retries (snd (browser_restart e c s)) = max_retries s"
        "session_view (trace (snd (browser_restart e c s))) = session_view (trace s) @
            (if c mod 300 = 0 then [Release, Pause 10, Acquire, Pause 5] else [])"
proof -
  have "browser_restart e c s = (None, snd (browser_restart e c s))"
    using assms by (simp add: prod_eq_iff)
  from browser_restart_ok [OF this]
  show "results (snd (browser_restart e c s)) = results s"
        "max_retries (snd (browser_restart e c s)) = max_retries s"
        "session_view (trace (snd (browser_restart e c s))) = session_view (trace s) @
            (if c mod 300 = 0 then [Release, Pause 10, Acquire, Pause 5] else [])"
    by simp_all
qed

lemma process_row_unfold:
  "process_row e row (c, s) =
     (case fst (scrape_track_with_retry e (row_id row) (row_name row) 1 s) of
        Inl x \<Rightarrow> (Some x, (c, snd (scrape_track_with_retry e (row_id row) (row_name row) 1 s)))
      | Inr r \<Rightarrow>
          (let s2 = (snd (scrape_track_with_retry e (row_id row) (row_name row) 1 s))
                      \<lparr>results := results s @ [r]\<rparr>;
               c2 = (if \<not> str_in ''Error'' (lyrics r) \<and> \<not> str_in ''Failed'' (lyrics r)
                     then c + 1 else c);
               completed = Suc (length (results s));
               ad = adaptive_delay e (real c2 / real completed) 2 5 s2;
               eb = extended_break e completed (progress_save completed (snd ad));
               br = browser_restart e completed (snd eb)
           in if fst ad then (Some KeyboardInterrupt, (c2, snd ad))
              else if fst eb then (Some KeyboardInterrupt, (c2, snd eb))
              else (fst br, (c2, snd br))))"
  by (simp add: process_row_def Let_def case_prod_beta bool.case_eq_if split: sum.splits)

lemma process_row_inv:
  "sess_inv s \<Longrightarrow> sess_inv (snd (snd (process_row e row (c, s))))"
  by (simp add: process_row_unfold Let_def browser_restart_inv split: sum.splits)

lemma process_row_ok:
  assumes "fst (process_row e row (c, s)) = None"
  shows "length (results (snd (snd (process_row e row (c, s))))) = Suc (length (results s))"
    and "session_view (trace (snd (snd (process_row e row (c, s)))))
           = session_view (trace s) @
               (if Suc (length (results s)) mod 300 = 0 then recycle else [])"
proof -
  let ?sr = "scrape_track_with_retry e (row_id row) (row_name row) 1 s"
  obtain r where r: "fst ?sr = Inr r"
    using assms by (cases "fst ?sr") (simp_all add: process_row_unfold)
  let ?s2 = "(snd ?sr)\<lparr>results := results s @ [r]\<rparr>"
  let ?c2 = "if \<not> str_in ''Error'' (lyrics r) \<and> \<not> str_in ''Failed'' (lyrics r)
             then c + 1 else c"
  let ?n = "Suc (length (results s))"
  let ?ad = "adaptive_delay e (real ?c2 / real ?n) 2 5 ?s2"
  let ?eb = "extended_break e ?n (progress_save ?n (snd ?ad))"
  let ?br = "browser_restart e ?n (snd ?eb)"
  have pr: "process_row e row (c, s) =
      (if fst ?ad then (Some KeyboardInterrupt, (?c2, snd ?ad))
       else if fst ?eb then (Some KeyboardInterrupt, (?c2, snd ?eb))
       else (fst ?br, (?c2, snd ?br)))"
    by (simp only: process_row_unfold r sum.case Let_def)
  have a: "\<not> fst ?ad" using assms pr by (cases "fst ?ad") simp_all
  have b: "\<not> fst ?eb" using assms pr a by (cases "fst ?eb") simp_all
  have d: "fst ?br = None" using assms pr a b by simp
  have st: "snd (snd (process_row e row (c, s))) = snd ?br" using pr a b by simp
  have "results (snd ?br) = results ?s2"
    by (simp only: browser_restart_proj(1) [OF d] extended_break_proj(1)
          progress_save_proj(1) adaptive_delay_proj(1))
  then show "length (results (snd (snd (process_row e row (c, s))))) = Suc (length (results s))"
    by (simp add: st)
  have "session_view (trace (snd ?br)) = session_view (trace ?s2) @
          (if ?n mod 300 = 0 then recycle else [])"
    by (simp only: browser_restart_proj(3) [OF d] extended_break_proj(3)
          progress_save_proj(3) adaptive_delay_proj(3) recycle_def)
  then show "session_view (trace (snd (snd (process_row e row (c, s)))))
           = session_view (trace s) @ (if ?n mod 300 = 0 then recycle else [])"
    by (simp add: st)
qed

lemma div_step:
  "Suc r div 300 = r div 300 + (if Suc r mod 300 = 0 then 1 else 0)"
  by (simp add: div_Suc)

lemma in_order_inv:
  "sess_inv (snd st) \<Longrightarrow> sess_inv (snd (snd (process_in_order e rows st)))"
proof (induction rows arbitrary: st)
  case Nil
  then show ?case by simp
next
  case (Cons row rows)
  obtain c s where st: "st = (c, s)" by (cases st)
  with Cons.prems have i: "sess_inv (snd (snd (process_row e row (c, s))))"
    by (simp add: process_row_inv)
  show ?case
  proof (cases "fst (process_row e row (c, s))")
    case None
    then have "process_in_order e (row # rows) st
                 = process_in_order e rows (snd (process_row e row (c, s)))"
      by (simp add: st case_prod_beta)
    with Cons.IH [OF i] show ?thesis by simp
  next
    case (Some x)
    then have "process_in_order e (row # rows) st = (Some x, snd (process_row e row (c, s)))"
      by (simp add: st case_prod_beta)
    with i show ?thesis by simp
  qed
qed

lemma in_order_ok:
  assumes "fst (process_in_order e rows st) = None"
  shows "length (results (snd (snd (process_in_order e rows st))))
           = length (results (snd st)) + length rows
       \<and> session_view (trace (snd (snd (process_in_order e rows st))))
           = session_view (trace (snd st)) @
             concat (replicate ((length (results (snd st)) + length rows) div 300
                                 - length (results (snd st)) div 300) recycle)"
  using assms
proof (induction rows arbitrary: st)
  case Nil
  then show ?case by simp
next
  case (Cons row rows)
  obtain c s where st: "st = (c, s)" by (cases st)
  let ?st' = "snd (process_row e row (c, s))"
  have n: "fst (process_row e row (c, s)) = None"
  proof (cases "fst (process_row e row (c, s))")
    case (Some x)
    then have "fst (process_in_order e (row # rows) st) = Some x"
      by (simp add: st case_prod_beta)
    with Cons.prems show ?thesis by simp
  qed simp
  then have step: "process_in_order e (row # rows) st = process_in_order e rows ?st'"
    by (simp add: st case_prod_beta)
  with Cons.prems have "fst (process_in_order e rows ?st') = None" by simp
  note ih = Cons.IH [OF this]
  let ?r = "length (results s)"
  have r': "length (results (snd ?st')) = Suc ?r"
    and v': "session_view (trace (snd ?st'))
           = session_view (trace s) @ (if Suc ?r mod 300 = 0 then recycle else [])"
    using process_row_ok [OF n] by simp_all
  have mono: "Suc ?r div 300 \<le> (Suc ?r + length rows) div 300"
    by (rule div_le_mono) simp
  let ?k = "(Suc ?r + length rows) div 300 - Suc ?r div 300"
  have tot: "(?r + length (row # rows)) div 300 - ?r div 300
      = (if Suc ?r mod 300 = 0 then Suc ?k else ?k)"
  proof (cases "Suc ?r mod 300 = 0")
    case True
    then have "Suc ?r div 300 = Suc (?r div 300)" by (simp add: div_step)
    with mono True show ?thesis by simp arith
  next
    case False
    then have "Suc ?r div 300 = ?r div 300" by (simp add: div_step)
    with False show ?thesis by simp
  qed
  show ?case
    unfolding step using ih r' v' tot
    by (simp add: st)
qed


lemmas run_defs =
  main_def new_scraper_def setup_driver_def driver_quit_def close_def save_progress_def
  production_scrape_def process_row_def progress_save_def extended_break_def
  browser_restart_def adaptive_delay_def adaptive_range_def random_delay_def
  time_sleep_uniform_def time_sleep_def call_scrape_track_def
  scrape_track_with_retry.simps error_marked_def Let_def

lemma new_scraper_ok:
  assumes "fst (new_scraper e mr w) = None"
  shows "results (snd (new_scraper e mr w)) = []"
    and "session_view (trace (snd (new_scraper e mr w))) = session_view (trace w) @ [Acquire]"
    and "live w = {} \<Longrightarrow> sess_inv (snd (new_scraper e mr w))"
proof -
  let ?sd = "setup_driver e (w\<lparr>driver := None\<rparr>)"
  have ns: "new_scraper e mr w =
      (case fst ?sd of Some x \<Rightarrow> (Some x, snd ?sd)
       | None \<Rightarrow> (None, (snd ?sd)\<lparr>results := [], max_retries := mr, failed_tracks := []\<rparr>))"
    by (simp add: new_scraper_def case_prod_beta split: option.splits)
  with assms have n: "fst ?sd = None" by (cases "fst ?sd") simp_all
  then have eq: "?sd = (None, snd ?sd)" by (simp add: prod_eq_iff)
  have s: "snd (new_scraper e mr w)
             = (snd ?sd)\<lparr>results := [], max_retries := mr, failed_tracks := []\<rparr>"
    using ns n by simp
  show "results (snd (new_scraper e mr w)) = []" using s by simp
  show "session_view (trace (snd (new_scraper e mr w))) = session_view (trace w) @ [Acquire]"
    using s setup_driver_ok [OF eq] by simp
  assume "live w = {}"
  then have "live (w\<lparr>driver := None\<rparr>) = {}" by simp
  then have "sess_inv (snd ?sd)" by (rule setup_driver_inv)
  then show "sess_inv (snd (new_scraper e mr w))" using s by (simp add: sess_inv_def)
qed

lemma production_scrape_unfold:
  "production_scrape e rows start_index tth s =
     (if tth * 3600 = 0 then (Some (Exception ''division by zero''), s)
      else case fst (production_loop e start_index 0 rows (0, s)) of
             Some x \<Rightarrow> (Some x, snd (snd (production_loop e start_index 0 rows (0, s))))
           | None \<Rightarrow>
               (None,
                let s2 = save_progress ''spotify_data_final.csv''
                           (snd (snd (production_loop e start_index 0 rows (0, s))))
                in if failed_tracks s2 \<noteq> []
                   then s2\<lparr>failed_csv := Some (failed_tracks s2)\<rparr> else s2))"
  by (simp add: production_scrape_def case_prod_beta Let_def split: option.splits)

lemma production_scrape_inv:
  "sess_inv s \<Longrightarrow> sess_inv (snd (production_scrape e rows start_index tth s))"
  using in_order_inv [of "(0, s)" e "drop (nat start_index) rows"]
  by (simp add: production_scrape_unfold production_loop_drop Let_def split: option.splits)

lemma production_scrape_ok:
  assumes "fst (production_scrape e rows start_index tth s) = None"
  shows "fst (production_loop e start_index 0 rows (0, s)) = None"
    and "results (snd (production_scrape e rows start_index tth s))
           = results (snd (snd (production_loop e start_index 0 rows (0, s))))"
    and "session_view (trace (snd (production_scrape e rows start_index tth s)))
           = session_view (trace (snd (snd (production_loop e start_index 0 rows (0, s)))))"
    and "results (snd (production_scrape e rows start_index tth s)) \<noteq> [] \<longrightarrow>
         disk (snd (production_scrape e rows start_index tth s))
              ''/workspaces/Songs4Image/spotify_data_final.csv''
           = Some (results (snd (production_scrape e rows start_index tth s)))"
  using assms
  by (simp_all add: production_scrape_unfold Let_def save_progress_def
        split: option.splits if_splits)

lemma close_released:
  "sess_inv s \<Longrightarrow> live (close s) = {}"
  "results (close s) = results s"
  "disk (close s) = disk s"
  by (auto simp: close_def driver_quit_def sess_inv_def split: option.splits)

lemma main_unfold:
  "main e csv w =
     (case fst (new_scraper e 3 w) of
        Some x \<Rightarrow> (Some x, snd (new_scraper e 3 w))
      | None \<Rightarrow>
          (let run = (case csv of None \<Rightarrow> (None, snd (new_scraper e 3 w))
                      | Some rows \<Rightarrow> production_scrape e rows 0 6 (snd (new_scraper e 3 w)))
           in case fst run of
                None \<Rightarrow> (None, close (snd run))
              | Some KeyboardInterrupt \<Rightarrow>
                  (None, close (save_progress ''spotify_data_interrupted.csv'' (snd run)))
              | Some (Exception err) \<Rightarrow>
                  (None, close (save_progress ''spotify_data_error.csv'' (snd run)))))"
  by (simp add: main_def case_prod_beta Let_def split: option.splits exn.splits)

lemma saved_after_handler:
  "results (save_progress fn s) \<noteq> [] \<longrightarrow>
     disk (save_progress fn s) (''/workspaces/Songs4Image/'' @ fn)
       = Some (results (save_progress fn s))"
  by (simp add: save_progress_def)

text \<open>
  Once the constructor has returned, \<open>main\<close> leaves no browser session alive however the
  run ends (CSV file missing, normal completion, \<open>KeyboardInterrupt\<close>, any other exception),
  and a non-empty ledger is on disk in full when \<open>main\<close> returns; here \<open>to_csv\<close> and
  \<open>quit\<close> are taken not to raise. The second lemma runs the interrupted path.
\<close>

lemma released_after_construction:
  assumes "live w = {}" and "fst (new_scraper e 3 w) = None"
  shows "live (snd (main e csv w)) = {}
       \<and> (case csv of
            None \<Rightarrow> results (snd (main e csv w)) = []
          | Some rows \<Rightarrow>
              results (snd (main e csv w)) \<noteq> [] \<longrightarrow>
              disk (snd (main e csv w))
                (''/workspaces/Songs4Image/'' @
                 exit_file (fst (production_scrape e rows 0 6 (snd (new_scraper e 3 w)))))
                = Some (results (snd (main e csv w))))"
proof -
  let ?s0 = "snd (new_scraper e 3 w)"
  have i0: "sess_inv ?s0" and r0: "results ?s0 = []"
    using new_scraper_ok [OF assms(2)] assms(1) by simp_all
  show ?thesis
  proof (cases csv)
    case None
    with assms(2) have "snd (main e csv w) = close ?s0" by (simp add: main_unfold)
    with i0 r0 None show ?thesis by (simp add: close_released)
  next
    case (Some rows)
    let ?run = "production_scrape e rows 0 6 ?s0"
    have i1: "sess_inv (snd ?run)" using i0 by (rule production_scrape_inv)
    show ?thesis
    proof (cases "fst ?run")
      case None
      with Some assms(2) have m: "snd (main e csv w) = close (snd ?run)"
        by (simp add: main_unfold)
      from production_scrape_ok(4) [OF None] i1 None show ?thesis
        unfolding m by (simp add: close_released exit_file_def \<open>csv = Some rows\<close>)
    next
      case (Some x)
      show ?thesis
      proof (cases x)
        case KeyboardInterrupt
        with Some \<open>csv = Some rows\<close> assms(2)
        have m: "snd (main e csv w)
                   = close (save_progress ''spotify_data_interrupted.csv'' (snd ?run))"
          by (simp add: main_unfold)
        from saved_after_handler [of "''spotify_data_interrupted.csv''" "snd ?run"] i1
          Some KeyboardInterrupt
        show ?thesis
          unfolding m by (simp add: close_released exit_file_def \<open>csv = Some rows\<close>)
      next
        case (Exception err)
        with Some \<open>csv = Some rows\<close> assms(2)
        have m: "snd (main e csv w)
                   = close (save_progress ''spotify_data_error.csv'' (snd ?run))"
          by (simp add: main_unfold)
        from saved_after_handler [of "''spotify_data_error.csv''" "snd ?run"] i1
          Some Exception
        show ?thesis
          unfolding m by (simp add: close_released exit_file_def \<open>csv = Some rows\<close>)
      qed
    qed
  qed
qed

lemma released_after_interrupt:
  "live blank = {} \<and> fst (new_scraper env_interrupt 3 blank) = None
   \<and> fst (production_scrape env_interrupt [row1, row2] 0 6
             (snd (new_scraper env_interrupt 3 blank))) = Some KeyboardInterrupt
   \<and> length (results (snd (main env_interrupt (Some [row1, row2]) blank))) = 1
   \<and> live (snd (main env_interrupt (Some [row1, row2]) blank)) = {}
   \<and> disk (snd (main env_interrupt (Some [row1, row2]) blank))
        ''/workspaces/Songs4Image/spotify_data_interrupted.csv''
        = Some (results (snd (main env_interrupt (Some [row1, row2]) blank)))"
proof -
  have h: "live blank = {}" "fst (new_scraper env_interrupt 3 blank) = None"
    by (simp_all add: run_defs env_interrupt_def blank_def)
  have o: "fst (production_scrape env_interrupt [row1, row2] 0 6
             (snd (new_scraper env_interrupt 3 blank))) = Some KeyboardInterrupt"
    by (simp add: run_defs env_interrupt_def blank_def row1_def row2_def)
  have r: "length (results (snd (main env_interrupt (Some [row1, row2]) blank))) = 1"
    by (simp add: run_defs env_interrupt_def blank_def row1_def row2_def)
  then have n: "results (snd (main env_interrupt (Some [row1, row2]) blank)) \<noteq> []" by auto
  have "exit_file (Some KeyboardInterrupt) = ''spotify_data_interrupted.csv''"
    by (simp add: exit_file_def)
  with released_after_construction [OF h, of "Some [row1, row2]"] h r o n
  show ?thesis by simp
qed

section \<open>Claims about the run orchestrator\<close>

text \<open>
  C7. For every list of rows and every \<open>start_index\<close>, the loop of \<open>production_scrape\<close>
  does exactly what processing the rows at positions \<open>\<ge> start_index\<close> does, one after the
  other, each once and in list order; the rows before \<open>start_index\<close> alone change nothing
  (no result, no event); and a pass that completes adds exactly one result per row at a
  position \<open>\<ge> start_index\<close>.
\<close>

theorem resume_from_index:
  "production_loop e start_index 0 rows st
     = process_in_order e (drop (nat start_index) rows) st
   \<and> production_loop e start_index 0 (take (nat start_index) rows) st = (None, st)
   \<and> (fst (production_loop e start_index 0 rows st) = None \<longrightarrow>
        length (results (snd (snd (production_loop e start_index 0 rows st))))
          = length (results (snd st)) + length (drop (nat start_index) rows))"
proof (intro conjI impI)
  show "production_loop e start_index 0 rows st
     = process_in_order e (drop (nat start_index) rows) st"
    using production_loop_drop [of e start_index 0 rows st] by simp
  show "production_loop e start_index 0 (take (nat start_index) rows) st = (None, st)"
    using production_loop_drop [of e start_index 0 "take (nat start_index) rows" st] by simp
  assume "fst (production_loop e start_index 0 rows st) = None"
  then have "fst (process_in_order e (drop (nat start_index) rows) st) = None"
    using production_loop_drop [of e start_index 0 rows st] by simp
  from in_order_ok [OF this]
  show "length (results (snd (snd (production_loop e start_index 0 rows st))))
          = length (results (snd st)) + length (drop (nat start_index) rows)"
    using production_loop_drop [of e start_index 0 rows st] by simp
qed

theorem resume_from_index_witness:
  "fst (production_loop env_quiet 1 0 [row1, row2] (0, blank)) = None
   \<and> map track_id (results (snd (snd (production_loop env_quiet 1 0 [row1, row2] (0, blank)))))
        = [''t2'']
   \<and> length (results (snd (snd (production_loop env_quiet 1 0 [row1, row2] (0, blank)))))
        = length (results (snd (0 :: nat, blank))) + length (drop (nat 1) [row1, row2])"
proof -
  have ev: "fst (production_loop env_quiet 1 0 [row1, row2] (0, blank)) = None"
    "map track_id (results (snd (snd (production_loop env_quiet 1 0 [row1, row2] (0, blank)))))
        = [''t2'']"
    by (simp_all add: run_defs env_quiet_def blank_def row1_def row2_def)
  from resume_from_index [of env_quiet 1 "[row1, row2]" "(0, blank)"] ev
  show ?thesis by blast
qed




text \<open>
  C8, on the code: the constructor runs before the \<open>try\<close> of \<open>main\<close> (line 202). When
  \<open>webdriver.Chrome\<close> has started a browser and the \<open>execute_script\<close> call that follows
  raises, the exception leaves \<open>main\<close> past the \<open>finally\<close> clause: the session was acquired
  and is never released.
\<close>

theorem constructor_failure_leaks_session:
  "fst (main env_script_fails (Some [row1]) blank) = Some (Exception ''javascript error'')
   \<and> driver (snd (main env_script_fails (Some [row1]) blank)) = Some 0
   \<and> live (snd (main env_script_fails (Some [row1]) blank)) = {0}
   \<and> trace (snd (main env_script_fails (Some [row1]) blank)) = [SetupDriver 0]
   \<and> session_view (trace (snd (main env_script_fails (Some [row1]) blank))) = [Acquire]"
  by (simp add: main_def new_scraper_def setup_driver_def env_script_fails_def blank_def)

section \<open>The frame kept by the lyrics pass\<close>

lemma kept_refl: "kept d0 start_index d0"
  by (simp add: kept_def)

lemma kept_df_at:
  assumes "kept d0 start_index d" and "\<not> has_lyrics (d0 ! index)" and "\<not> int index < start_index"
  shows "kept d0 start_index (df_at index new_lyrics pt d)"
proof -
  have "df_at index new_lyrics pt d ! i = d0 ! i"
    if "i < length d0" and "has_lyrics (d0 ! i) \<or> int i < start_index" for i
  proof -
    from that assms(2,3) have "index \<noteq> i" by auto
    then have "df_at index new_lyrics pt d ! i = d ! i" by (simp add: df_at_def)
    with that assms(1) show ?thesis by (auto simp: kept_def)
  qed
  moreover have "length (df_at index new_lyrics pt d) = length d0"
    using assms(1) by (simp add: kept_def df_at_def)
  ultimately show ?thesis by (simp add: kept_def)
qed

lemma lyr_sleep_fields [simp]:
  "df (snd (lyr_sleep e s)) = df s"
  "written (snd (lyr_sleep e s)) = written s"
  "calls (snd (lyr_sleep e s)) = calls s"
  "total_processed (snd (lyr_sleep e s)) = total_processed s"
  by (simp_all add: lyr_sleep_def)

lemma lyr_restart_fields [simp]:
  "df (snd (lyr_restart e s)) = df s"
  "written (snd (lyr_restart e s)) = written s"
  "calls (snd (lyr_restart e s)) = calls s"
  by (simp_all add: lyr_restart_def lyr_sleep_def case_prod_beta bool.case_eq_if
      option.case_eq_if)

lemma to_csv_fields [simp]:
  "df (snd (to_csv e s)) = df s"
  "calls (snd (to_csv e s)) = calls s"
  "total_processed (snd (to_csv e s)) = total_processed s"
  by (simp_all add: to_csv_def option.case_eq_if)

lemma to_csv_written:
  "written (snd (to_csv e s)) \<in> {written s, written s @ [df s]}"
  "fst (to_csv e s) = None \<Longrightarrow> written (snd (to_csv e s)) = written s @ [df s]"
  by (simp_all add: to_csv_def option.case_eq_if split: if_splits)

lemma extract_fields [simp]:
  "df (snd (extract_full_lyrics e tid tname s)) = df s"
  "written (snd (extract_full_lyrics e tid tname s)) = written s"
  "calls (snd (extract_full_lyrics e tid tname s)) = calls s @ [(tid, tname)]"
  "total_processed (snd (extract_full_lyrics e tid tname s)) = total_processed s"
  by (simp_all add: extract_full_lyrics_def Let_def split: sum.splits exn.splits)

lemma lyrics_row_skip:
  "int index < start_index \<or> has_lyrics row \<Longrightarrow> lyrics_row e start_index index row s = (None, s)"
  by (auto simp: lyrics_row_def)

lemma lyrics_row_raised:
  assumes "\<not> int index < start_index" and "\<not> has_lyrics row"
      and "extract_full_lyrics e (lr_track_id row) (lr_track_name row) s = (Inl x, s1)"
  shows "lyrics_row e start_index index row s = (Some x, s1)"
  using assms by (simp add: lyrics_row_def)

lemma lyrics_row_done:
  assumes "\<not> int index < start_index" and "\<not> has_lyrics row"
      and "extract_full_lyrics e (lr_track_id row) (lr_track_name row) s = (Inr l, s1)"
  shows "df (snd (lyrics_row e start_index index row s))
           = df_at index l (lenv_elapsed e (lticks s)) (df s1)"
    and "written (snd (lyrics_row e start_index index row s))
           \<in> {written s1, written s1 @ [df_at index l (lenv_elapsed e (lticks s)) (df s1)]}"
    and "calls (snd (lyrics_row e start_index index row s)) = calls s1"
proof -
  let ?s2 = "s1\<lparr>df := df_at index l (lenv_elapsed e (lticks s)) (df s1),
                 total_processed := total_processed s1 + 1,
                 success_count :=
                   (if \<not> starts_with ''Error'' l \<and> l \<noteq> ''No lyrics available''
                    then success_count s1 + 1 else success_count s1)\<rparr>"
  let ?sv = "if total_processed ?s2 mod 10 = 0 then to_csv e ?s2 else (None, ?s2)"
  have sv: "df (snd ?sv) = df ?s2" "calls (snd ?sv) = calls ?s2"
    "written (snd ?sv) \<in> {written ?s2, written ?s2 @ [df ?s2]}"
    using to_csv_written(1) [of e ?s2] by (simp_all split: if_splits)
  have row: "lyrics_row e start_index index row s =
      (case fst ?sv of
         Some x \<Rightarrow> (Some x, snd ?sv)
       | None \<Rightarrow>
           if fst (lyr_sleep e (snd ?sv)) then (Some KeyboardInterrupt, snd (lyr_sleep e (snd ?sv)))
           else if total_processed (snd (lyr_sleep e (snd ?sv))) mod 100 = 0
                then lyr_restart e (snd (lyr_sleep e (snd ?sv)))
                else (None, snd (lyr_sleep e (snd ?sv))))"
    using assms
    by (simp add: lyrics_row_def Let_def case_prod_beta bool.case_eq_if option.case_eq_if
        del: to_csv_fields lyr_sleep_fields lyr_restart_fields)
  have fin: "df (snd (lyrics_row e start_index index row s)) = df (snd ?sv)
      \<and> written (snd (lyrics_row e start_index index row s)) = written (snd ?sv)
      \<and> calls (snd (lyrics_row e start_index index row s)) = calls (snd ?sv)"
    unfolding row by (cases "fst ?sv") simp_all
  from fin sv(1) show "df (snd (lyrics_row e start_index index row s))
           = df_at index l (lenv_elapsed e (lticks s)) (df s1)" by simp
  from fin sv(2) show "calls (snd (lyrics_row e start_index index row s)) = calls s1" by simp
  from fin sv(3) show "written (snd (lyrics_row e start_index index row s))
           \<in> {written s1, written s1 @ [df_at index l (lenv_elapsed e (lticks s)) (df s1)]}"
    by simp
qed

lemma lyrics_row_fields:
  assumes "\<not> int index < start_index" and "\<not> has_lyrics row"
  shows "\<exists>l pt. df (snd (lyrics_row e start_index index row s)) \<in> {df s, df_at index l pt (df s)}
          \<and> written (snd (lyrics_row e start_index index row s))
               \<in> {written s, written s @ [df_at index l pt (df s)]}"
    and "calls (snd (lyrics_row e start_index index row s))
           = calls s @ [(lr_track_id row, lr_track_name row)]"
proof -
  let ?x = "extract_full_lyrics e (lr_track_id row) (lr_track_name row) s"
  obtain r s1 where x: "?x = (r, s1)" by (cases ?x)
  have f: "df s1 = df s" "written s1 = written s"
    "calls s1 = calls s @ [(lr_track_id row, lr_track_name row)]"
    using extract_fields [of e "lr_track_id row" "lr_track_name row" s] x by simp_all
  show "calls (snd (lyrics_row e start_index index row s))
           = calls s @ [(lr_track_id row, lr_track_name row)]"
  proof (cases r)
    case (Inl a)
    with x have "lyrics_row e start_index index row s = (Some a, s1)"
      using lyrics_row_raised [OF assms] by simp
    with f show ?thesis by simp
  next
    case (Inr l)
    with x have "calls (snd (lyrics_row e start_index index row s)) = calls s1"
      using lyrics_row_done(3) [OF assms] by simp
    with f show ?thesis by simp
  qed
  show "\<exists>l pt. df (snd (lyrics_row e start_index index row s)) \<in> {df s, df_at index l pt (df s)}
          \<and> written (snd (lyrics_row e start_index index row s))
               \<in> {written s, written s @ [df_at index l pt (df s)]}"
  proof (cases r)
    case (Inl a)
    with x have "lyrics_row e start_index index row s = (Some a, s1)"
      using lyrics_row_raised [OF assms] by simp
    with f have "df (snd (lyrics_row e start_index index row s)) = df s"
      "written (snd (lyrics_row e start_index index row s)) = written s" by simp_all
    then show ?thesis by (intro exI [of _ "[]"] exI [of _ 0]) simp
  next
    case (Inr l)
    let ?pt = "lenv_elapsed e (lticks s)"
    from Inr x have x': "?x = (Inr l, s1)" by simp
    have d: "df (snd (lyrics_row e start_index index row s)) = df_at index l ?pt (df s)"
      using lyrics_row_done(1) [OF assms x'] f by simp
    have w: "written (snd (lyrics_row e start_index index row s))
               \<in> {written s, written s @ [df_at index l ?pt (df s)]}"
      using lyrics_row_done(2) [OF assms x'] f by simp
    from d w show ?thesis by blast
  qed
qed

lemma lyrics_row_inv:
  assumes "lyr_inv d0 start_index before s" and "index < length d0" and "row = d0 ! index"
  shows "lyr_inv d0 start_index before (snd (lyrics_row e start_index index row s))"
proof (cases "int index < start_index \<or> has_lyrics row")
  case True
  then show ?thesis using assms(1) by (simp add: lyrics_row_skip)
next
  case False
  then have a: "\<not> int index < start_index" "\<not> has_lyrics row" by simp_all
  let ?s' = "snd (lyrics_row e start_index index row s)"
  from lyrics_row_fields(1) [OF a, of e s] obtain l pt where
    d: "df ?s' \<in> {df s, df_at index l pt (df s)}"
    and w: "written ?s' \<in> {written s, written s @ [df_at index l pt (df s)]}"
    by blast
  from assms(1) obtain ws where
    ws: "written s = before @ ws" "\<forall>d \<in> set ws. kept d0 start_index d"
    and ks: "kept d0 start_index (df s)"
    by (auto simp: lyr_inv_def)
  have k: "kept d0 start_index (df_at index l pt (df s))"
    using kept_df_at [of d0 start_index "df s" index l pt] ks assms(3) a by simp
  have 1: "kept d0 start_index (df ?s')" using d k ks by auto
  have 2: "\<exists>ws'. written ?s' = before @ ws' \<and> (\<forall>d \<in> set ws'. kept d0 start_index d)"
  proof (cases "written ?s' = written s")
    case True
    with ws show ?thesis by auto
  next
    case False
    with w have "written ?s' = before @ (ws @ [df_at index l pt (df s)])"
      using ws(1) by simp
    moreover have "\<forall>d \<in> set (ws @ [df_at index l pt (df s)]). kept d0 start_index d"
      using ws(2) k by simp
    ultimately show ?thesis by blast
  qed
  from 1 2 show ?thesis unfolding lyr_inv_def by simp
qed

lemma lyrics_loop_inv:
  assumes "lyr_inv d0 start_index before s" and "rows = drop index d0"
  shows "lyr_inv d0 start_index before (snd (lyrics_loop e start_index index rows s))"
  using assms
proof (induction rows arbitrary: index s)
  case Nil
  then show ?case by simp
next
  case (Cons row rows)
  from Cons.prems(2) have i: "index < length d0"
    by (metis drop_eq_Nil list.distinct(1) not_le)
  from Cons.prems(2) i have r: "row = d0 ! index" and rs: "rows = drop (Suc index) d0"
    by (simp_all add: Cons_nth_drop_Suc [symmetric])
  let ?p = "lyrics_row e start_index index row s"
  have inv: "lyr_inv d0 start_index before (snd ?p)"
    using lyrics_row_inv [OF Cons.prems(1) i r] .
  obtain x s' where p: "?p = (x, s')" by (cases ?p)
  show ?case
  proof (cases x)
    case None
    with p inv Cons.IH [of s' "Suc index"] rs show ?thesis by simp
  next
    case (Some a)
    with p inv show ?thesis by simp
  qed
qed

lemma due_Cons:
  "due start_index (row # rows) =
     (if 0 < start_index then due (start_index - 1) rows
      else (if has_lyrics row then [] else [(lr_track_id row, lr_track_name row)])
           @ due 0 rows)"
proof (cases "0 < start_index")
  case True
  then have "nat start_index = Suc (nat (start_index - 1))" by simp
  with True show ?thesis by (simp add: due_def)
next
  case False
  then show ?thesis by (simp add: due_def)
qed

lemma due_nonpos: "start_index \<le> 0 \<Longrightarrow> due start_index rows = due 0 rows"
  by (simp add: due_def)

lemma lyrics_loop_calls:
  assumes "fst (lyrics_loop e start_index index rows s) = None"
  shows "calls (snd (lyrics_loop e start_index index rows s))
           = calls s @ due (start_index - int index) rows"
  using assms
proof (induction rows arbitrary: index s)
  case Nil
  then show ?case by (simp add: due_def)
next
  case (Cons row rows)
  let ?p = "lyrics_row e start_index index row s"
  obtain x s' where p: "?p = (x, s')" by (cases ?p)
  with Cons.prems have x: "x = None" by (cases x) simp_all
  have step: "lyrics_loop e start_index index (row # rows) s
                = lyrics_loop e start_index (Suc index) rows s'"
    using p x by simp
  with Cons.prems have n: "fst (lyrics_loop e start_index (Suc index) rows s') = None"
    by simp
  have e1: "start_index - int (Suc index) = start_index - int index - 1" by simp
  have ih: "calls (snd (lyrics_loop e start_index (Suc index) rows s'))
              = calls s' @ due (start_index - int index - 1) rows"
    using Cons.IH [OF n] unfolding e1 .
  have "calls s' @ due (start_index - int index - 1) rows
          = calls s @ due (start_index - int index) (row # rows)"
  proof (cases "int index < start_index")
    case True
    then have "s' = s" using p by (simp add: lyrics_row_skip)
    moreover from True have "0 < start_index - int index" by simp
    then have "due (start_index - int index) (row # rows)
                 = due (start_index - int index - 1) rows"
      by (subst due_Cons) simp
    ultimately show ?thesis by simp
  next
    case False
    then have le: "start_index - int index \<le> 0" by simp
    then have d0: "due (start_index - int index - 1) rows = due 0 rows"
      by (intro due_nonpos) simp
    from le have dd: "due (start_index - int index) (row # rows)
                 = (if has_lyrics row then [] else [(lr_track_id row, lr_track_name row)])
                   @ due 0 rows"
      by (subst due_Cons) simp
    show ?thesis
    proof (cases "has_lyrics row")
      case True
      then have "s' = s" using p by (simp add: lyrics_row_skip)
      with True show ?thesis unfolding dd d0 by simp
    next
      case nl: False
      have "calls s' = calls s @ [(lr_track_id row, lr_track_name row)]"
        using lyrics_row_fields(2) [OF False nl, of e s] p by simp
      with nl show ?thesis unfolding dd d0 by simp
    qed
  qed
  with ih show ?case unfolding step by simp
qed

lemma take_length_take: "take (length (take n xs)) xs = take n xs"
  by (simp add: min_def)

lemma truncated_take:
  "truncated input start_index max_tracks
     = take (length (truncated input start_index max_tracks)) input"
  by (simp add: truncated_def df_head_def take_length_take del: length_take split: option.splits)

lemma add_lyrics_unfold:
  "add_lyrics_to_csv e input start_index max_tracks w =
     (let run = lyrics_loop e start_index 0 (truncated input start_index max_tracks)
                  (w\<lparr>df := truncated input start_index max_tracks,
                     total_processed := 0, success_count := 0\<rparr>)
      in case fst run of
           Some x \<Rightarrow> (Inl x, snd run)
         | None \<Rightarrow>
             (case fst (to_csv e (snd run)) of
                Some x \<Rightarrow> (Inl x, snd (to_csv e (snd run)))
              | None \<Rightarrow> (Inr (df (snd run)), snd (to_csv e (snd run)))))"
  by (simp add: add_lyrics_to_csv_def Let_def case_prod_beta split: option.splits)

lemma lyrics_loop_calls_prefix:
  "\<exists>n. calls (snd (lyrics_loop e start_index index rows s))
           = calls s @ take n (due (start_index - int index) rows)"
proof (induction rows arbitrary: index s)
  case Nil
  show ?case by (simp add: due_def)
next
  case (Cons row rows)
  let ?p = "lyrics_row e start_index index row s"
  let ?key = "(lr_track_id row, lr_track_name row)"
  obtain x s' where p: "?p = (x, s')" by (cases ?p)
  have e1: "start_index - int (Suc index) = start_index - int index - 1" by simp
  from Cons.IH [of "Suc index" s'] obtain n where
    ih: "calls (snd (lyrics_loop e start_index (Suc index) rows s'))
              = calls s' @ take n (due (start_index - int index - 1) rows)"
    unfolding e1 by blast
  show ?case
  proof (cases "int index < start_index \<or> has_lyrics row")
    case True
    then have ps: "?p = (None, s)" by (rule lyrics_row_skip)
    with p have s: "s' = s" and x: "x = None" by simp_all
    have step: "lyrics_loop e start_index index (row # rows) s
                = lyrics_loop e start_index (Suc index) rows s"
      using ps by simp
    show ?thesis
    proof (cases "int index < start_index")
      case True
      then have "0 < start_index - int index" by simp
      then have "due (start_index - int index) (row # rows)
                 = due (start_index - int index - 1) rows"
        by (subst due_Cons) simp
      with ih s show ?thesis unfolding step by auto
    next
      case False
      then have le: "start_index - int index \<le> 0" by simp
      then have d0: "due (start_index - int index - 1) rows = due 0 rows"
        by (intro due_nonpos) simp
      from le \<open>int index < start_index \<or> has_lyrics row\<close> False
      have "due (start_index - int index) (row # rows) = due 0 rows"
        by (subst due_Cons) simp
      with ih s d0 show ?thesis unfolding step by auto
    qed
  next
    case False
    then have a: "\<not> int index < start_index" "\<not> has_lyrics row" by simp_all
    from a(1) have le: "start_index - int index \<le> 0" by simp
    then have d0: "due (start_index - int index - 1) rows = due 0 rows"
      by (intro due_nonpos) simp
    from le a(2) have dd: "due (start_index - int index) (row # rows) = ?key # due 0 rows"
      by (subst due_Cons) simp
    have c: "calls s' = calls s @ [?key]"
      using lyrics_row_fields(2) [OF a, of e s] p by simp
    show ?thesis
    proof (cases x)
      case None
      with p have step: "lyrics_loop e start_index index (row # rows) s
                = lyrics_loop e start_index (Suc index) rows s'" by simp
      have "calls (snd (lyrics_loop e start_index index (row # rows) s))
              = calls s @ take (Suc n) (due (start_index - int index) (row # rows))"
        unfolding step ih c dd d0 by simp
      then show ?thesis by blast
    next
      case (Some y)
      with p have step: "lyrics_loop e start_index index (row # rows) s = (Some y, s')"
        by simp
      have "calls (snd (lyrics_loop e start_index index (row # rows) s))
              = calls s @ take 1 (due (start_index - int index) (row # rows))"
        unfolding step dd using c by simp
      then show ?thesis by blast
    qed
  qed
qed

lemmas lyr_defs =
  add_lyrics_to_csv_def truncated_def df_head_def lyrics_row_def has_lyrics_def
  extract_full_lyrics_def df_at_def to_csv_def lyr_sleep_def lyr_restart_def Let_def

section \<open>Claims about the lyrics pass\<close>

text \<open>
  C10. Let \<open>d0\<close> be the frame \<open>add_lyrics_to_csv\<close> works on: the input frame, cut to its first
  \<open>start_index + max_tracks\<close> rows when \<open>max_tracks\<close> is given. However the call ends, the
  frame it leaves and every frame it wrote to \<open>output_csv\<close> have the rows of \<open>d0\<close>, and every
  row whose lyrics in the input are present and not one of the placeholders
  "Skipped for speed" and "No lyrics available" (and every row before \<open>start_index\<close>) is in
  them unchanged: only rows with missing or placeholder lyrics are modified. The calls of
  \<open>extract_full_lyrics\<close> made are, in order, calls for rows from \<open>start_index\<close> on with missing or
  placeholder lyrics, a prefix of the due list, all of it when the call returns; the frame
  returned is the last one written.
\<close>

theorem existing_lyrics_kept:
  "kept (truncated input start_index max_tracks) start_index
        (df (snd (add_lyrics_to_csv e input start_index max_tracks w)))
   \<and> (\<exists>ws. written (snd (add_lyrics_to_csv e input start_index max_tracks w)) = written w @ ws
            \<and> (\<forall>d \<in> set ws. kept (truncated input start_index max_tracks) start_index d))
   \<and> (\<exists>n. calls (snd (add_lyrics_to_csv e input start_index max_tracks w))
             = calls w @ take n (due start_index (truncated input start_index max_tracks)))
   \<and> (\<forall>out. fst (add_lyrics_to_csv e input start_index max_tracks w) = Inr out \<longrightarrow>
         out = df (snd (add_lyrics_to_csv e input start_index max_tracks w))
         \<and> last (written (snd (add_lyrics_to_csv e input start_index max_tracks w))) = out
         \<and> calls (snd (add_lyrics_to_csv e input start_index max_tracks w))
             = calls w @ due start_index (truncated input start_index max_tracks))
   \<and> truncated input start_index max_tracks
        = take (length (truncated input start_index max_tracks)) input"
proof -
  let ?d0 = "truncated input start_index max_tracks"
  let ?s0 = "w\<lparr>df := ?d0, total_processed := 0, success_count := 0\<rparr>"
  let ?run = "lyrics_loop e start_index 0 ?d0 ?s0"
  let ?res = "add_lyrics_to_csv e input start_index max_tracks w"
  have inv0: "lyr_inv ?d0 start_index (written w) ?s0"
    by (simp add: lyr_inv_def kept_refl)
  have inv: "lyr_inv ?d0 start_index (written w) (snd ?run)"
    using lyrics_loop_inv [OF inv0, of ?d0 0 e] by simp
  from inv obtain ws where
    ws: "written (snd ?run) = written w @ ws" "\<forall>d \<in> set ws. kept ?d0 start_index d"
    and k: "kept ?d0 start_index (df (snd ?run))"
    by (auto simp: lyr_inv_def)
  from lyrics_loop_calls_prefix [of e start_index 0 ?d0 ?s0] obtain n where
    n: "calls (snd ?run) = calls w @ take n (due start_index ?d0)" by auto
  have res: "?res = (case fst ?run of
           Some x \<Rightarrow> (Inl x, snd ?run)
         | None \<Rightarrow>
             (case fst (to_csv e (snd ?run)) of
                Some x \<Rightarrow> (Inl x, snd (to_csv e (snd ?run)))
              | None \<Rightarrow> (Inr (df (snd ?run)), snd (to_csv e (snd ?run)))))"
    by (simp add: add_lyrics_unfold Let_def)
  have 5: "?d0 = take (length ?d0) input" by (rule truncated_take)
  show ?thesis
  proof (cases "fst ?run")
    case (Some x)
    with res have r: "?res = (Inl x, snd ?run)" by simp
    have 1: "kept ?d0 start_index (df (snd ?res))"
      unfolding r using k by simp
    have 2: "\<exists>ws. written (snd ?res) = written w @ ws
            \<and> (\<forall>d \<in> set ws. kept ?d0 start_index d)"
      unfolding r using ws by (intro exI [of _ ws]) simp
    have 3: "\<exists>n. calls (snd ?res) = calls w @ take n (due start_index ?d0)"
      unfolding r using n by (intro exI [of _ n]) simp
    have 4: "\<forall>out. fst ?res = Inr out \<longrightarrow>
         out = df (snd ?res) \<and> last (written (snd ?res)) = out
         \<and> calls (snd ?res) = calls w @ due start_index ?d0"
      unfolding r by simp
    from 1 2 3 4 5 show ?thesis by blast
  next
    case None
    let ?fin = "to_csv e (snd ?run)"
    have c: "calls (snd ?fin) = calls w @ due start_index ?d0"
      using lyrics_loop_calls [OF None] by simp
    have 1: "kept ?d0 start_index (df (snd ?fin))" using k by simp
    have 3: "\<exists>n. calls (snd ?fin) = calls w @ take n (due start_index ?d0)"
      using c by (intro exI [of _ "length (due start_index ?d0)"]) simp
    have 2: "\<exists>ws. written (snd ?fin) = written w @ ws
            \<and> (\<forall>d \<in> set ws. kept ?d0 start_index d)"
    proof (cases "written (snd ?fin) = written (snd ?run)")
      case True
      with ws show ?thesis by (intro exI [of _ ws]) simp
    next
      case False
      with to_csv_written(1) [of e "snd ?run"]
      have "written (snd ?fin) = written w @ (ws @ [df (snd ?run)])"
        using ws(1) by simp
      moreover have "\<forall>d \<in> set (ws @ [df (snd ?run)]). kept ?d0 start_index d"
        using ws(2) k by simp
      ultimately show ?thesis by blast
    qed
    show ?thesis
    proof (cases "fst ?fin")
      case (Some x)
      with None res have r: "?res = (Inl x, snd ?fin)" by simp
      have 4: "\<forall>out. fst ?res = Inr out \<longrightarrow>
         out = df (snd ?res) \<and> last (written (snd ?res)) = out
         \<and> calls (snd ?res) = calls w @ due start_index ?d0"
        unfolding r by simp
      from 1 2 3 4 5 show ?thesis unfolding r by simp
    next
      case fn: None
      with None res have r: "?res = (Inr (df (snd ?run)), snd ?fin)" by simp
      have l: "last (written (snd ?fin)) = df (snd ?run)"
        using to_csv_written(2) [OF fn] by simp
      have 4: "\<forall>out. fst ?res = Inr out \<longrightarrow>
         out = df (snd ?res) \<and> last (written (snd ?res)) = out
         \<and> calls (snd ?res) = calls w @ due start_index ?d0"
        unfolding r using c l by simp
      from 1 2 3 4 5 show ?thesis unfolding r by simp
    qed
  qed
qed

theorem existing_lyrics_kept_witness:
  "fst (add_lyrics_to_csv lyr_env_ok sample_frame 0 (Some 3) lyr_blank)
     = Inr [\<lparr>lr_track_id = ''a'', lr_track_name = ''A'', lr_lyrics = Some ''real words'',
              lr_time = None\<rparr>,
            \<lparr>lr_track_id = ''b'', lr_track_name = ''B'', lr_lyrics = Some ''la la b'',
              lr_time = Some 2\<rparr>,
            \<lparr>lr_track_id = ''c'', lr_track_name = ''C'', lr_lyrics = Some ''la la c'',
              lr_time = Some 2\<rparr>]
   \<and> truncated sample_frame 0 (Some 3) = take 3 sample_frame
   \<and> lyrics_present (sample_frame ! 0) \<and> \<not> lyrics_present (sample_frame ! 1)
   \<and> \<not> lyrics_present (sample_frame ! 2)
   \<and> df (snd (add_lyrics_to_csv lyr_env_ok sample_frame 0 (Some 3) lyr_blank)) ! 0
        = sample_frame ! 0
   \<and> written (snd (add_lyrics_to_csv lyr_env_ok sample_frame 0 (Some 3) lyr_blank))
        = [df (snd (add_lyrics_to_csv lyr_env_ok sample_frame 0 (Some 3) lyr_blank))]
   \<and> calls (snd (add_lyrics_to_csv lyr_env_ok sample_frame 0 (Some 3) lyr_blank))
        = [(''b'', ''B''), (''c'', ''C'')]"
proof -
  let ?res = "add_lyrics_to_csv lyr_env_ok sample_frame 0 (Some 3) lyr_blank"
  let ?out = "[\<lparr>lr_track_id = ''a'', lr_track_name = ''A'', lr_lyrics = Some ''real words'',
              lr_time = None\<rparr>,
            \<lparr>lr_track_id = ''b'', lr_track_name = ''B'', lr_lyrics = Some ''la la b'',
              lr_time = Some (2::real)\<rparr>,
            \<lparr>lr_track_id = ''c'', lr_track_name = ''C'', lr_lyrics = Some ''la la c'',
              lr_time = Some 2\<rparr>]"
  have ev: "fst ?res = Inr ?out"
    by (simp add: lyr_defs lyr_env_ok_def sample_frame_def lyr_blank_def)
  have tr: "truncated sample_frame 0 (Some 3) = take 3 sample_frame"
    by (simp add: truncated_def df_head_def)
  have h: "lyrics_present (sample_frame ! 0)" "\<not> lyrics_present (sample_frame ! 1)"
    "\<not> lyrics_present (sample_frame ! 2)"
    by (simp_all add: sample_frame_def has_lyrics_def)
  have du: "due 0 (take 3 sample_frame) = [(''b'', ''B''), (''c'', ''C'')]"
    by (simp add: due_def sample_frame_def has_lyrics_def)
  note inst = existing_lyrics_kept [of sample_frame 0 "Some 3" lyr_env_ok lyr_blank]
  from inst have "kept (take 3 sample_frame) 0 (df (snd ?res))"
    unfolding tr by blast
  then have "\<forall>i < length (take 3 sample_frame).
               lyrics_present (take 3 sample_frame ! i) \<or> int i < 0
                 \<longrightarrow> df (snd ?res) ! i = take 3 sample_frame ! i"
    by (simp add: kept_def)
  then have "lyrics_present (take 3 sample_frame ! 0)
                 \<longrightarrow> df (snd ?res) ! 0 = take 3 sample_frame ! 0"
    by (simp add: sample_frame_def)
  with h(1) have k0: "df (snd ?res) ! 0 = sample_frame ! 0"
    by (simp add: sample_frame_def)
  from inst ev have "calls (snd ?res) = calls lyr_blank @ due 0 (take 3 sample_frame)"
    unfolding tr by blast
  then have c: "calls (snd ?res) = [(''b'', ''B''), (''c'', ''C'')]"
    unfolding du by (simp add: lyr_blank_def)
  have w: "written (snd ?res) = [df (snd ?res)]"
    by (simp add: lyr_defs lyr_env_ok_def sample_frame_def lyr_blank_def)
  from ev tr h k0 w c show ?thesis by blast
qed

end
